theory Spec2Isabelle
  imports Main
begin

section \<open>The filesystem the store runs on\<close>

text \<open>
  The store (class \<open>FileDatabase\<close>) keeps no data of its own: the backing file is the
  state. The filesystem is a map from paths to file contents. Every call of the \<open>fs\<close>
  module either succeeds or reports an error; a call can fail for a reason the model
  knows (the file is absent) or because the schedule \<open>faults\<close> injects a failure (one
  flag per call, consumed in order; an exhausted schedule injects nothing). A call that
  fails changes no file. Every call is recorded in \<open>trace\<close> with its outcome.

  \<open>createReadStream\<close> stands for the whole read of the file: the scan writes to other
  files only, so the content it reads is the content at the time it opens the file. A
  failure to open is taken to reject the scan.
\<close>

type_synonym path = string

datatype error =
    ENOENT path
  | EIO path
  | SyntaxError string
  | Thrown string

datatype fs_call =
    Stat path
  | OpenRead path
  | WriteFile path string bool
  | Unlink path
  | Rename path path

record world =
  files :: "path \<Rightarrow> string option"
  faults :: "bool list"
  trace :: "(fs_call \<times> bool) list"

definition inject :: "world \<Rightarrow> bool \<times> world" where
  "inject w = (case faults w of [] \<Rightarrow> (False, w) | b # bs \<Rightarrow> (b, w\<lparr>faults := bs\<rparr>))"

definition logged :: "fs_call \<Rightarrow> bool \<Rightarrow> world \<Rightarrow> world" where
  "logged c ok w = w\<lparr>trace := trace w @ [(c, ok)]\<rparr>"

definition fs_stat :: "path \<Rightarrow> world \<Rightarrow> (error + nat) \<times> world" where
  "fs_stat p w =
     (case inject w of (bad, w1) \<Rightarrow>
        if bad then (Inl (EIO p), logged (Stat p) False w1)
        else (case files w1 p of
                None \<Rightarrow> (Inl (ENOENT p), logged (Stat p) False w1)
              | Some c \<Rightarrow> (Inr (length c), logged (Stat p) True w1)))"

definition fs_createReadStream :: "path \<Rightarrow> world \<Rightarrow> (error + string) \<times> world" where
  "fs_createReadStream p w =
     (case inject w of (bad, w1) \<Rightarrow>
        if bad then (Inl (EIO p), logged (OpenRead p) False w1)
        else (case files w1 p of
                None \<Rightarrow> (Inl (ENOENT p), logged (OpenRead p) False w1)
              | Some c \<Rightarrow> (Inr c, logged (OpenRead p) True w1)))"

definition fs_writeFile :: "path \<Rightarrow> string \<Rightarrow> bool \<Rightarrow> world \<Rightarrow> (error + unit) \<times> world" where
  "fs_writeFile p contents doAppend w =
     (case inject w of (bad, w1) \<Rightarrow>
        if bad then (Inl (EIO p), logged (WriteFile p contents doAppend) False w1)
        else (Inr (),
              logged (WriteFile p contents doAppend) True
                (w1\<lparr>files := (files w1)
                   (p \<mapsto> (if doAppend
                           then (case files w1 p of None \<Rightarrow> contents | Some old \<Rightarrow> old @ contents)
                           else contents))\<rparr>)))"

definition fs_unlink :: "path \<Rightarrow> world \<Rightarrow> (error + unit) \<times> world" where
  "fs_unlink p w =
     (case inject w of (bad, w1) \<Rightarrow>
        if bad then (Inl (EIO p), logged (Unlink p) False w1)
        else (case files w1 p of
                None \<Rightarrow> (Inl (ENOENT p), logged (Unlink p) False w1)
              | Some c \<Rightarrow> (Inr (), logged (Unlink p) True (w1\<lparr>files := (files w1)(p := None)\<rparr>))))"

definition fs_rename :: "path \<Rightarrow> path \<Rightarrow> world \<Rightarrow> (error + unit) \<times> world" where
  "fs_rename oldName newName w =
     (case inject w of (bad, w1) \<Rightarrow>
        if bad then (Inl (EIO oldName), logged (Rename oldName newName) False w1)
        else (case files w1 oldName of
                None \<Rightarrow> (Inl (ENOENT oldName), logged (Rename oldName newName) False w1)
              | Some c \<Rightarrow>
                  (Inr (),
                   logged (Rename oldName newName) True
                     (w1\<lparr>files := ((files w1)(oldName := None))(newName \<mapsto> c)\<rparr>))))"

section \<open>Lines and records\<close>

text \<open>
  Strings are lists of 8-bit characters. \<open>readline\<close> cuts the stream at LF, CR LF and a
  lone CR (the flag \<open>sawReturn\<close> makes a LF that follows a CR part of the same line end),
  and gives a last unterminated line only when it is not empty. \<open>line.trim()\<close> is falsy
  exactly when the line holds nothing but white space. The line separators and white
  space of JavaScript beyond ASCII are not in the model. \<open>JSON.stringify\<close> and
  \<open>JSON.parse\<close> are the record codec; they are parameters of the model (\<open>parse\<close> giving
  \<open>None\<close> where \<open>JSON.parse\<close> throws).
\<close>

definition LF :: char where "LF = CHR 0x0A"
definition CR :: char where "CR = CHR 0x0D"

fun readline :: "string \<Rightarrow> bool \<Rightarrow> string \<Rightarrow> string list" where
  "readline cur sawReturn [] = (if cur = [] then [] else [cur])"
| "readline cur sawReturn (c # cs) =
     (if c = LF then (if sawReturn then readline cur False cs else cur # readline [] False cs)
      else if c = CR then cur # readline [] True cs
      else readline (cur @ [c]) False cs)"

definition is_space :: "char \<Rightarrow> bool" where
  "is_space c \<longleftrightarrow> c \<in> {CHR 0x09, CHR 0x0A, CHR 0x0B, CHR 0x0C, CHR 0x0D, CHR 0x20}"

definition trim_falsy :: "string \<Rightarrow> bool" where
  "trim_falsy line \<longleftrightarrow> list_all is_space line"

record 'r codec =
  stringify :: "'r \<Rightarrow> string"
  parse :: "string \<Rightarrow> 'r option"

section \<open>The store\<close>

text \<open>
  An instance holds the path of its backing file, the path of its temporary file and
  \<open>lockedPromise\<close>. The model runs one operation to its end before the next one is
  issued, so a promise is seen only once it has settled: \<open>Fulfilled\<close>, or \<open>Rejected\<close>
  with the error. \<open>await\<close> on a rejected promise throws its error, and
  \<open>promise.catch(() => {})\<close> is fulfilled whatever the promise settled to.
\<close>

datatype promise = Fulfilled | Rejected error

record FileDatabase =
  ndjsonFilename :: path
  tmpFileName :: path
  lockedPromise :: promise

definition constructor :: "path \<Rightarrow> FileDatabase" where
  "constructor name =
     \<lparr>ndjsonFilename = name, tmpFileName = name @ ''.tmp.ndjson'', lockedPromise = Fulfilled\<rparr>"

definition await :: "promise \<Rightarrow> error + unit" where
  "await p = (case p of Fulfilled \<Rightarrow> Inr () | Rejected e \<Rightarrow> Inl e)"

definition settled :: "error + 'a \<Rightarrow> promise" where
  "settled r = (case r of Inl e \<Rightarrow> Rejected e | Inr _ \<Rightarrow> Fulfilled)"

definition catch_ignore :: "promise \<Rightarrow> promise" where
  "catch_ignore p = (case p of Fulfilled \<Rightarrow> Fulfilled | Rejected e \<Rightarrow> Fulfilled)"

text \<open>
  \<open>lockAndExecute\<close>: wait for the pending promise when asked to, run the callback, keep
  the callback's promise with its rejection caught as the new \<open>lockedPromise\<close>, and hand
  the callback's own outcome to the caller. The callback gets the instance, since the
  callbacks of \<open>updateRecords\<close> and \<open>deleteRecords\<close> call \<open>this.forEachRecord\<close>, which
  assigns \<open>lockedPromise\<close> too. The source assigns the field while the callback is still
  running; here the assignment follows the callback, which makes no difference once
  everything has settled, since every promise assigned has its rejection caught.
\<close>

definition lockAndExecute ::
  "(FileDatabase \<Rightarrow> world \<Rightarrow> (error + 'a) \<times> FileDatabase \<times> world) \<Rightarrow> bool \<Rightarrow>
   FileDatabase \<Rightarrow> world \<Rightarrow> (error + 'a) \<times> FileDatabase \<times> world" where
  "lockAndExecute callback waitForUnlock this w =
     (case (if waitForUnlock then await (lockedPromise this) else Inr ()) of
        Inl e \<Rightarrow> (Inl e, this, w)
      | Inr _ \<Rightarrow>
          (case callback this w of (r, this', w') \<Rightarrow>
             (r, this'\<lparr>lockedPromise := catch_ignore (settled r)\<rparr>, w')))"

definition renameFile :: "path \<Rightarrow> path \<Rightarrow> world \<Rightarrow> (error + unit) \<times> world" where
  "renameFile oldName newName w = fs_rename oldName newName w"

definition deleteFile :: "path \<Rightarrow> world \<Rightarrow> (error + unit) \<times> world" where
  "deleteFile fileName w = fs_unlink fileName w"

definition writeFile :: "path \<Rightarrow> string \<Rightarrow> bool \<Rightarrow> world \<Rightarrow> (error + unit) \<times> world" where
  "writeFile fileName contents doAppend w = fs_writeFile fileName contents doAppend w"

definition fileExists :: "path \<Rightarrow> world \<Rightarrow> bool \<times> world" where
  "fileExists fileName w =
     (case fs_stat fileName w of (Inl err, w') \<Rightarrow> (False, w') | (Inr data, w') \<Rightarrow> (True, w'))"

text \<open>\<open>.catch\<close> with a handler that returns normally: the error is dropped.\<close>

definition catch_log :: "(error + unit) \<times> world \<Rightarrow> (error + unit) \<times> world" where
  "catch_log rw = (case rw of (Inl err, w) \<Rightarrow> (Inr (), w) | (Inr u, w) \<Rightarrow> (Inr u, w))"

definition getDatabaseSize :: "FileDatabase \<Rightarrow> world \<Rightarrow> (error + nat) \<times> FileDatabase \<times> world" where
  "getDatabaseSize this w = (case fs_stat (ndjsonFilename this) w of (r, w') \<Rightarrow> (r, this, w'))"

text \<open>
  The loop of \<open>forEachRecord\<close> over the lines. The callback may change what its closure
  captured (the accumulator \<open>acc\<close>) and the filesystem, and may throw. It returns
  \<open>None\<close> for \<open>undefined\<close>; only a defined falsy result stops the loop.
\<close>

fun forEachRecord_loop ::
  "'r codec \<Rightarrow> ('r \<Rightarrow> 'acc \<Rightarrow> world \<Rightarrow> (error + bool option \<times> 'acc) \<times> world) \<Rightarrow>
   string list \<Rightarrow> 'acc \<Rightarrow> world \<Rightarrow> (error + 'acc) \<times> world" where
  "forEachRecord_loop cdc callback [] acc w = (Inr acc, w)"
| "forEachRecord_loop cdc callback (line # rest) acc w =
     (if trim_falsy line then forEachRecord_loop cdc callback rest acc w
      else (case parse cdc line of
              None \<Rightarrow> (Inl (SyntaxError line), w)
            | Some data \<Rightarrow>
                (case callback data acc w of
                   (Inl e, w') \<Rightarrow> (Inl e, w')
                 | (Inr (doContinue, acc'), w') \<Rightarrow>
                     if doContinue = Some False then (Inr acc', w')
                     else forEachRecord_loop cdc callback rest acc' w')))"

definition forEachRecord ::
  "'r codec \<Rightarrow> ('r \<Rightarrow> 'acc \<Rightarrow> world \<Rightarrow> (error + bool option \<times> 'acc) \<times> world) \<Rightarrow> bool \<Rightarrow>
   'acc \<Rightarrow> FileDatabase \<Rightarrow> world \<Rightarrow> (error + 'acc) \<times> FileDatabase \<times> world" where
  "forEachRecord cdc callback waitForUnlock acc this w =
     lockAndExecute
       (\<lambda>this w.
          case fileExists (ndjsonFilename this) w of (ex, w1) \<Rightarrow>
            if \<not> ex then (Inr acc, this, w1)
            else (case fs_createReadStream (ndjsonFilename this) w1 of
                    (Inl e, w2) \<Rightarrow> (Inl e, this, w2)
                  | (Inr content, w2) \<Rightarrow>
                      (case forEachRecord_loop cdc callback (readline [] False content) acc w2 of
                         (r, w3) \<Rightarrow> (r, this, w3))))
       waitForUnlock this w"

definition getAllRecords ::
  "'r codec \<Rightarrow> bool \<Rightarrow> FileDatabase \<Rightarrow> world \<Rightarrow> (error + 'r list) \<times> FileDatabase \<times> world" where
  "getAllRecords cdc waitForUnlock this w =
     forEachRecord cdc (\<lambda>data records w. (Inr (Some True, records @ [data]), w))
       waitForUnlock [] this w"

definition getNumRecords ::
  "'r codec \<Rightarrow> bool \<Rightarrow> FileDatabase \<Rightarrow> world \<Rightarrow> (error + nat) \<times> FileDatabase \<times> world" where
  "getNumRecords cdc waitForUnlock this w =
     (case getAllRecords cdc waitForUnlock this w of
        (Inl e, this', w') \<Rightarrow> (Inl e, this', w')
      | (Inr rc, this', w') \<Rightarrow> (Inr (length rc), this', w'))"

definition findRecord ::
  "'r codec \<Rightarrow> ('r \<Rightarrow> bool) \<Rightarrow> bool \<Rightarrow> FileDatabase \<Rightarrow> world \<Rightarrow>
   (error + 'r option) \<times> FileDatabase \<times> world" where
  "findRecord cdc callback waitForUnlock this w =
     forEachRecord cdc
       (\<lambda>record foundRecord w.
          let isAccepted = callback record
          in (Inr (Some (\<not> isAccepted), if isAccepted then Some record else foundRecord), w))
       waitForUnlock None this w"

definition findRecords ::
  "'r codec \<Rightarrow> ('r \<Rightarrow> bool) \<Rightarrow> bool \<Rightarrow> FileDatabase \<Rightarrow> world \<Rightarrow>
   (error + 'r list) \<times> FileDatabase \<times> world" where
  "findRecords cdc callback waitForUnlock this w =
     forEachRecord cdc
       (\<lambda>record foundRecords w.
          let isAccepted = callback record
          in (Inr (Some True, if isAccepted then foundRecords @ [record] else foundRecords), w))
       waitForUnlock [] this w"

definition addRecords ::
  "'r codec \<Rightarrow> 'r list \<Rightarrow> FileDatabase \<Rightarrow> world \<Rightarrow> (error + unit) \<times> FileDatabase \<times> world" where
  "addRecords cdc records this w =
     lockAndExecute
       (\<lambda>this w.
          let newJson = foldl (\<lambda>str record. str @ stringify cdc record @ [LF]) [] records
          in (case writeFile (ndjsonFilename this) newJson True w of (r, w') \<Rightarrow> (r, this, w')))
       True this w"

definition addRecord ::
  "'r codec \<Rightarrow> 'r \<Rightarrow> FileDatabase \<Rightarrow> world \<Rightarrow> (error + unit) \<times> FileDatabase \<times> world" where
  "addRecord cdc record this w = addRecords cdc [record] this w"

definition deleteAllRecords ::
  "FileDatabase \<Rightarrow> world \<Rightarrow> (error + unit) \<times> FileDatabase \<times> world" where
  "deleteAllRecords this w =
     lockAndExecute
       (\<lambda>this w. case writeFile (ndjsonFilename this) [] False w of (r, w') \<Rightarrow> (r, this, w'))
       True this w"

definition getTmpWriter :: "FileDatabase \<Rightarrow> FileDatabase" where
  "getTmpWriter this = constructor (tmpFileName this)"

text \<open>
  The callbacks of \<open>updateRecords\<close> and \<open>deleteRecords\<close> capture the temporary writer and
  the flag \<open>isUpdated\<close>; the accumulator is that pair.
\<close>

definition updateRecords_callback ::
  "'r codec \<Rightarrow> ('r \<Rightarrow> bool) \<Rightarrow> 'r \<Rightarrow> 'r \<Rightarrow> FileDatabase \<times> bool \<Rightarrow> world \<Rightarrow>
   (error + bool option \<times> FileDatabase \<times> bool) \<times> world" where
  "updateRecords_callback cdc findCallback newRecord record acc w =
     (case acc of (tmpWriter, isUpdated) \<Rightarrow>
        let isAccepted = findCallback record;
            updateRecord = (if isAccepted then newRecord else record)
        in (case addRecord cdc updateRecord tmpWriter w of
              (Inl e, tmpWriter', w') \<Rightarrow> (Inl e, w')
            | (Inr _, tmpWriter', w') \<Rightarrow> (Inr (Some True, tmpWriter', True), w')))"

definition updateRecords ::
  "'r codec \<Rightarrow> ('r \<Rightarrow> bool) \<Rightarrow> 'r \<Rightarrow> FileDatabase \<Rightarrow> world \<Rightarrow>
   (error + unit) \<times> FileDatabase \<times> world" where
  "updateRecords cdc findCallback newRecord this w =
     lockAndExecute
       (\<lambda>this w.
          case deleteAllRecords (getTmpWriter this) w of
            (Inl e, tmpWriter, w1) \<Rightarrow> (Inl e, this, w1)
          | (Inr _, tmpWriter, w1) \<Rightarrow>
              (case forEachRecord cdc (updateRecords_callback cdc findCallback newRecord) False
                      (tmpWriter, False) this w1 of
                 (Inl e, this2, w2) \<Rightarrow> (Inl e, this2, w2)
               | (Inr (tmpWriter', isUpdated), this2, w2) \<Rightarrow>
                   if isUpdated then
                     (case catch_log (deleteFile (ndjsonFilename this2) w2) of (_, w3) \<Rightarrow>
                        (case renameFile (tmpFileName this2) (ndjsonFilename this2) w3 of
                           (r, w4) \<Rightarrow> (r, this2, w4)))
                   else (Inr (), this2, w2)))
       True this w"

definition deleteRecords_callback ::
  "'r codec \<Rightarrow> ('r \<Rightarrow> bool) \<Rightarrow> 'r \<Rightarrow> FileDatabase \<times> bool \<Rightarrow> world \<Rightarrow>
   (error + bool option \<times> FileDatabase \<times> bool) \<times> world" where
  "deleteRecords_callback cdc findCallback record acc w =
     (case acc of (tmpWriter, isUpdated) \<Rightarrow>
        let doDelete = findCallback record
        in if \<not> doDelete then
             (case addRecord cdc record tmpWriter w of
                (Inl e, tmpWriter', w') \<Rightarrow> (Inl e, w')
              | (Inr _, tmpWriter', w') \<Rightarrow> (Inr (Some True, tmpWriter', isUpdated), w'))
           else (Inr (Some True, tmpWriter, True), w))"

definition deleteRecords ::
  "'r codec \<Rightarrow> ('r \<Rightarrow> bool) \<Rightarrow> FileDatabase \<Rightarrow> world \<Rightarrow>
   (error + unit) \<times> FileDatabase \<times> world" where
  "deleteRecords cdc findCallback this w =
     lockAndExecute
       (\<lambda>this w.
          case deleteAllRecords (getTmpWriter this) w of
            (Inl e, tmpWriter, w1) \<Rightarrow> (Inl e, this, w1)
          | (Inr _, tmpWriter, w1) \<Rightarrow>
              (case forEachRecord cdc (deleteRecords_callback cdc findCallback) False
                      (tmpWriter, False) this w1 of
                 (Inl e, this2, w2) \<Rightarrow> (Inl e, this2, w2)
               | (Inr (tmpWriter', isUpdated), this2, w2) \<Rightarrow>
                   if isUpdated then
                     (case catch_log (deleteFile (ndjsonFilename this2) w2) of (_, w3) \<Rightarrow>
                        (case renameFile (tmpFileName this2) (ndjsonFilename this2) w3 of
                           (Inl err, w4) \<Rightarrow>
                             (Inl (Thrown ''Could not properly delete database entry''), this2, w4)
                         | (Inr u, w4) \<Rightarrow> (Inr u, this2, w4)))
                   else
                     (case catch_log (deleteFile (tmpFileName this2) w2) of
                        (r, w3) \<Rightarrow> (r, this2, w3))))
       True this w"

section \<open>Notions used in the statements and proofs\<close>

text \<open>
  The content \<open>addRecords\<close> writes for a list of records; the records the loop of
  \<open>forEachRecord\<close> meets on a list of lines, or the error of the first line that does not
  parse; what the claims need of the codec at a record: the record comes back from its own
  line, and that line is one non-blank line. \<open>copy_callback\<close> is the common shape of the two
  callbacks of the replace protocol, and \<open>scan_phase\<close> and \<open>swap_phase\<close> are its two halves
  on a constructed instance.
\<close>

definition ndjson :: "'r codec \<Rightarrow> 'r list \<Rightarrow> string" where
  "ndjson cdc records = concat (map (\<lambda>record. stringify cdc record @ [LF]) records)"

fun records_of :: "'r codec \<Rightarrow> string list \<Rightarrow> error + 'r list" where
  "records_of cdc [] = Inr []"
| "records_of cdc (line # rest) =
     (if trim_falsy line then records_of cdc rest
      else (case parse cdc line of
              None \<Rightarrow> Inl (SyntaxError line)
            | Some data \<Rightarrow> (case records_of cdc rest of Inl e \<Rightarrow> Inl e | Inr rs \<Rightarrow> Inr (data # rs))))"

definition codec_ok :: "'r codec \<Rightarrow> 'r \<Rightarrow> bool" where
  "codec_ok cdc r \<longleftrightarrow>
     parse cdc (stringify cdc r) = Some r \<and> \<not> trim_falsy (stringify cdc r) \<and>
     LF \<notin> set (stringify cdc r) \<and> CR \<notin> set (stringify cdc r)"

definition written :: "(path \<Rightarrow> string option) \<Rightarrow> path \<Rightarrow> string \<Rightarrow> bool \<Rightarrow> path \<Rightarrow> string option" where
  "written fs p contents doAppend =
     fs(p \<mapsto> (if doAppend then (case fs p of None \<Rightarrow> contents | Some old \<Rightarrow> old @ contents)
              else contents))"

definition copy_callback ::
  "'r codec \<Rightarrow> ('r \<Rightarrow> 'r option) \<Rightarrow> ('r \<Rightarrow> bool) \<Rightarrow> 'r \<Rightarrow> FileDatabase \<times> bool \<Rightarrow> world \<Rightarrow>
   (error + bool option \<times> FileDatabase \<times> bool) \<times> world" where
  "copy_callback cdc out flag record acc w =
     (case out record of
        None \<Rightarrow> (Inr (Some True, fst acc, snd acc \<or> flag record), w)
      | Some x \<Rightarrow>
          (case addRecord cdc x (fst acc) w of
             (Inl e, tmpWriter', w') \<Rightarrow> (Inl e, w')
           | (Inr _, tmpWriter', w') \<Rightarrow> (Inr (Some True, tmpWriter', snd acc \<or> flag record), w')))"

definition scan_phase ::
  "'r codec \<Rightarrow> ('r \<Rightarrow> 'r option) \<Rightarrow> ('r \<Rightarrow> bool) \<Rightarrow> path \<Rightarrow> world \<Rightarrow>
   (error + FileDatabase \<times> bool) \<times> FileDatabase \<times> world" where
  "scan_phase cdc out flag name w =
     forEachRecord cdc (copy_callback cdc out flag) False (constructor (name @ ''.tmp.ndjson''), False)
       (constructor name) (snd (writeFile (name @ ''.tmp.ndjson'') [] False w))"

definition swap_phase :: "path \<Rightarrow> world \<Rightarrow> (error + unit) \<times> world" where
  "swap_phase name w = renameFile (name @ ''.tmp.ndjson'') name (snd (deleteFile name w))"

text \<open>
  The renames that succeeded, read off the trace: a call of the replace protocol has swapped
  the temporary file in exactly when it has added one.
\<close>

definition renamed :: "world \<Rightarrow> (path \<times> path) list" where
  "renamed w =
     List.map_filter (\<lambda>e. case e of (Rename a b, True) \<Rightarrow> Some (a, b) | _ \<Rightarrow> None) (trace w)"

text \<open>
  The schedule injects a failure into the call that is \<open>n\<close> calls ahead; the next call
  is the one at \<open>0\<close>.
\<close>

definition injected :: "nat \<Rightarrow> world \<Rightarrow> bool" where
  "injected n w \<longleftrightarrow> n < length (faults w) \<and> faults w ! n"

text \<open>
  A codec and a filesystem for concrete runs: records that are JSON booleans, and the
  filesystem holding the listed files, with a schedule of injected failures.
\<close>

definition json_bool :: "bool codec" where
  "json_bool =
     \<lparr>stringify = (\<lambda>b. if b then ''true'' else ''false''),
      parse = (\<lambda>s. if s = ''true'' then Some True else if s = ''false'' then Some False else None)\<rparr>"

definition disk :: "(path \<times> string) list \<Rightarrow> bool list \<Rightarrow> world" where
  "disk fs plan = \<lparr>files = map_of fs, faults = plan, trace = []\<rparr>"

section \<open>The lock under asynchronous scheduling\<close>

text \<open>
  The sections above run each operation to its end before the next is issued. Here the
  calls of \<open>lockAndExecute\<close> on one instance are interleaved the way the event loop
  interleaves them. A call runs synchronously up to \<open>await this.lockedPromise\<close> (lines
  257 to 259, \<open>lockAndExecute_enter\<close>): it reads the field, and its continuation becomes a
  microtask once that promise has settled, at once when it already has. A call that does
  not wait goes on synchronously. The continuation (lines 261 to 270,
  \<open>lockAndExecute_resume\<close>) creates the promise of the operation, which starts the
  callback and with it the file access, and only then assigns \<open>this.lockedPromise\<close>.
  Microtasks run in order; the completion of a file access is delivered only when no
  microtask is left, settles the promise the operation installed and wakes the calls that
  await it.

  Operations are numbered; \<open>Initial\<close> is the promise the field is initialised with and
  \<open>Installed i\<close> the one operation \<open>i\<close> assigned to it. An event that cannot happen in
  the state gives \<open>None\<close>.
\<close>

datatype pid = Initial | Installed nat

datatype phase = Idle | Awaiting pid | InIO | Finished

record event_loop =
  el_lockedPromise :: pid
  el_settled :: "pid list"
  el_phase :: "nat \<Rightarrow> phase"
  el_issued :: "nat list"
  el_microtasks :: "nat list"

definition el_constructor :: event_loop where
  "el_constructor =
     \<lparr>el_lockedPromise = Initial, el_settled = [Initial], el_phase = (\<lambda>i. Idle),
      el_issued = [], el_microtasks = []\<rparr>"

definition lockAndExecute_resume :: "nat \<Rightarrow> event_loop \<Rightarrow> event_loop" where
  "lockAndExecute_resume i s = s\<lparr>el_phase := (el_phase s)(i := InIO), el_lockedPromise := Installed i\<rparr>"

definition lockAndExecute_enter :: "nat \<Rightarrow> bool \<Rightarrow> event_loop \<Rightarrow> event_loop option" where
  "lockAndExecute_enter i waitForUnlock s =
     (if i \<in> set (el_issued s) then None
      else if waitForUnlock then
        Some (s\<lparr>el_phase := (el_phase s)(i := Awaiting (el_lockedPromise s)),
                el_issued := el_issued s @ [i],
                el_microtasks :=
                  (if el_lockedPromise s \<in> set (el_settled s) then el_microtasks s @ [i]
                   else el_microtasks s)\<rparr>)
      else Some (lockAndExecute_resume i (s\<lparr>el_issued := el_issued s @ [i]\<rparr>)))"

definition el_microtask :: "event_loop \<Rightarrow> event_loop option" where
  "el_microtask s =
     (case el_microtasks s of
        [] \<Rightarrow> None
      | i # rest \<Rightarrow> Some (lockAndExecute_resume i (s\<lparr>el_microtasks := rest\<rparr>)))"

definition el_complete :: "nat \<Rightarrow> event_loop \<Rightarrow> event_loop option" where
  "el_complete i s =
     (if el_phase s i = InIO \<and> el_microtasks s = [] then
        Some (s\<lparr>el_phase := (el_phase s)(i := Finished),
                el_settled := Installed i # el_settled s,
                el_microtasks := filter (\<lambda>j. el_phase s j = Awaiting (Installed i)) (el_issued s)\<rparr>)
      else None)"

datatype event = Call nat bool | Microtask | Complete nat

fun el_run :: "event list \<Rightarrow> event_loop \<Rightarrow> event_loop option" where
  "el_run [] s = Some s"
| "el_run (Call i waitForUnlock # es) s =
     (case lockAndExecute_enter i waitForUnlock s of None \<Rightarrow> None | Some s' \<Rightarrow> el_run es s')"
| "el_run (Microtask # es) s =
     (case el_microtask s of None \<Rightarrow> None | Some s' \<Rightarrow> el_run es s')"
| "el_run (Complete i # es) s =
     (case el_complete i s of None \<Rightarrow> None | Some s' \<Rightarrow> el_run es s')"

definition in_io :: "event_loop \<Rightarrow> nat list" where
  "in_io s = filter (\<lambda>i. el_phase s i = InIO) (el_issued s)"

section \<open>Lemmas\<close>

text \<open>filesystem calls\<close>

lemma files_logged [simp]: "files (logged c ok w) = files w"
  by (simp add: logged_def)

lemma faults_logged [simp]: "faults (logged c ok w) = faults w"
  by (simp add: logged_def)

lemma inject_files [simp]: "files (snd (inject w)) = files w"
  by (cases "faults w") (simp_all add: inject_def)

lemma inject_faults [simp]: "faults (snd (inject w)) = tl (faults w)"
  by (cases "faults w") (simp_all add: inject_def)

lemma inject_nofault [simp]: "faults w = [] \<Longrightarrow> inject w = (False, w)"
  by (simp add: inject_def)

text \<open>stat\<close>

lemma fs_stat_files [simp]: "files (snd (fs_stat p w)) = files w"
  by (simp add: fs_stat_def split_beta split: option.split)

lemma fs_stat_faults [simp]: "faults (snd (fs_stat p w)) = tl (faults w)"
  by (simp add: fs_stat_def split_beta split: option.split)

lemma fs_stat_nofault:
  "faults w = [] \<Longrightarrow>
   fst (fs_stat p w) = (case files w p of None \<Rightarrow> Inl (ENOENT p) | Some c \<Rightarrow> Inr (length c))"
  by (simp add: fs_stat_def split: option.split)

lemma fs_stat_absent: "files w p = None \<Longrightarrow> isl (fst (fs_stat p w))"
  by (simp add: fs_stat_def split_beta)

lemma fileExists_files [simp]: "files (snd (fileExists p w)) = files w"
  using fs_stat_files [of p w]
  by (simp add: fileExists_def split_beta split: sum.split)

lemma fileExists_faults [simp]: "faults (snd (fileExists p w)) = tl (faults w)"
  using fs_stat_faults [of p w]
  by (simp add: fileExists_def split_beta split: sum.split)

lemma fileExists_fst: "fst (fileExists p w) = (\<not> isl (fst (fs_stat p w)))"
  by (simp add: fileExists_def split_beta split: sum.split)

lemma fileExists_nofault: "faults w = [] \<Longrightarrow> fst (fileExists p w) = (files w p \<noteq> None)"
  by (simp add: fileExists_fst fs_stat_nofault split: option.split)

text \<open>createReadStream\<close>

lemma fs_read_files [simp]: "files (snd (fs_createReadStream p w)) = files w"
  by (simp add: fs_createReadStream_def split_beta split: option.split)

lemma fs_read_faults [simp]: "faults (snd (fs_createReadStream p w)) = tl (faults w)"
  by (simp add: fs_createReadStream_def split_beta split: option.split)

lemma fs_read_nofault:
  "faults w = [] \<Longrightarrow>
   fst (fs_createReadStream p w) = (case files w p of None \<Rightarrow> Inl (ENOENT p) | Some c \<Rightarrow> Inr c)"
  by (simp add: fs_createReadStream_def split: option.split)

lemma fs_read_success: "fst (fs_createReadStream p w) = Inr c \<Longrightarrow> files w p = Some c"
  by (auto simp: fs_createReadStream_def split_beta split: option.splits if_splits)

text \<open>writeFile\<close>

lemma writeFile_faults [simp]: "faults (snd (writeFile p c a w)) = tl (faults w)"
  by (simp add: writeFile_def fs_writeFile_def split_beta)

lemma writeFile_files:
  "files (snd (writeFile p c a w)) =
     (if isl (fst (writeFile p c a w)) then files w else written (files w) p c a)"
  by (simp add: writeFile_def fs_writeFile_def split_beta written_def)

lemma writeFile_nofault: "faults w = [] \<Longrightarrow> fst (writeFile p c a w) = Inr ()"
  by (simp add: writeFile_def fs_writeFile_def)

text \<open>unlink\<close>

lemma deleteFile_faults [simp]: "faults (snd (deleteFile p w)) = tl (faults w)"
  by (simp add: deleteFile_def fs_unlink_def split_beta split: option.split)

lemma deleteFile_files:
  "files (snd (deleteFile p w)) =
     (if isl (fst (deleteFile p w)) then files w else (files w)(p := None))"
  by (simp add: deleteFile_def fs_unlink_def split_beta split: option.split)

lemma deleteFile_nofault:
  "faults w = [] \<Longrightarrow>
   fst (deleteFile p w) = (case files w p of None \<Rightarrow> Inl (ENOENT p) | Some c \<Rightarrow> Inr ())"
  by (simp add: deleteFile_def fs_unlink_def split: option.split)

lemma catch_log_fst [simp]: "fst (catch_log rw) = Inr ()"
  by (cases rw) (simp add: catch_log_def split: sum.split)

lemma catch_log_snd [simp]: "snd (catch_log rw) = snd rw"
  by (cases rw) (simp add: catch_log_def split: sum.split)

text \<open>rename\<close>

lemma renameFile_faults [simp]: "faults (snd (renameFile a b w)) = tl (faults w)"
  by (simp add: renameFile_def fs_rename_def split_beta split: option.split)

lemma renameFile_files:
  "files (snd (renameFile a b w)) =
     (if isl (fst (renameFile a b w)) then files w
      else ((files w)(a := None))(b := files w a))"
  by (auto simp: renameFile_def fs_rename_def split_beta split: option.split)

lemma renameFile_nofault:
  "faults w = [] \<Longrightarrow>
   fst (renameFile a b w) = (case files w a of None \<Rightarrow> Inl (ENOENT a) | Some c \<Rightarrow> Inr ())"
  by (simp add: renameFile_def fs_rename_def split: option.split)

text \<open>the lock, run to completion\<close>

lemma catch_ignore_settled [simp]: "catch_ignore (settled r) = Fulfilled"
  by (simp add: catch_ignore_def settled_def split: sum.split promise.split)

lemma constructor_fields [simp]:
  "ndjsonFilename (constructor name) = name"
  "tmpFileName (constructor name) = name @ ''.tmp.ndjson''"
  "lockedPromise (constructor name) = Fulfilled"
  by (simp_all add: constructor_def)

lemma constructor_relock [simp]: "(constructor name)\<lparr>lockedPromise := Fulfilled\<rparr> = constructor name"
  by (simp add: constructor_def)

lemma tmp_name_differs [simp]: "name @ ''.tmp.ndjson'' \<noteq> name" "name \<noteq> name @ ''.tmp.ndjson''"
  by simp_all

lemma lockAndExecute_run:
  "\<not> waitForUnlock \<or> lockedPromise this = Fulfilled \<Longrightarrow>
   lockAndExecute callback waitForUnlock this w =
     (fst (callback this w),
      (fst (snd (callback this w)))\<lparr>lockedPromise := Fulfilled\<rparr>,
      snd (snd (callback this w)))"
  by (auto simp: lockAndExecute_def await_def split_beta)

lemma foldl_ndjson:
  "foldl (\<lambda>str record. str @ stringify cdc record @ [LF]) acc records = acc @ ndjson cdc records"
  by (induction records arbitrary: acc) (simp_all add: ndjson_def)

lemma addRecords_constructor:
  "addRecords cdc records (constructor p) w =
     (fst (writeFile p (ndjson cdc records) True w), constructor p,
      snd (writeFile p (ndjson cdc records) True w))"
  by (simp add: addRecords_def lockAndExecute_run split_beta foldl_ndjson Let_def)

lemma addRecord_constructor:
  "addRecord cdc record (constructor p) w =
     (fst (writeFile p (stringify cdc record @ [LF]) True w), constructor p,
      snd (writeFile p (stringify cdc record @ [LF]) True w))"
  by (simp add: addRecord_def addRecords_constructor ndjson_def)

lemma deleteAllRecords_constructor:
  "deleteAllRecords (constructor p) w =
     (fst (writeFile p [] False w), constructor p, snd (writeFile p [] False w))"
  by (simp add: deleteAllRecords_def lockAndExecute_run split_beta)

lemma forEachRecord_constructor:
  "forEachRecord cdc callback waitForUnlock acc (constructor name) w =
     (if \<not> fst (fileExists name w) then (Inr acc, constructor name, snd (fileExists name w))
      else (case fst (fs_createReadStream name (snd (fileExists name w))) of
              Inl e \<Rightarrow> (Inl e, constructor name, snd (fs_createReadStream name (snd (fileExists name w))))
            | Inr content \<Rightarrow>
                (fst (forEachRecord_loop cdc callback (readline [] False content) acc
                        (snd (fs_createReadStream name (snd (fileExists name w))))),
                 constructor name,
                 snd (forEachRecord_loop cdc callback (readline [] False content) acc
                        (snd (fs_createReadStream name (snd (fileExists name w))))))))"
  by (simp add: forEachRecord_def lockAndExecute_run split_beta split: sum.split)

text \<open>lines\<close>

lemma readline_record:
  "LF \<notin> set s \<Longrightarrow> CR \<notin> set s \<Longrightarrow>
   readline cur False (s @ LF # rest) = (cur @ s) # readline [] False rest"
  by (induction s arbitrary: cur) auto

lemma readline_ndjson:
  "\<forall>r\<in>set rs. LF \<notin> set (stringify cdc r) \<and> CR \<notin> set (stringify cdc r) \<Longrightarrow>
   readline [] False (ndjson cdc rs) = map (stringify cdc) rs"
proof (induction rs)
  case Nil
  then show ?case by (simp add: ndjson_def)
next
  case (Cons r rs)
  have "ndjson cdc (r # rs) = stringify cdc r @ LF # ndjson cdc rs"
    by (simp add: ndjson_def)
  with Cons show ?case
    by (simp add: readline_record)
qed

lemma records_of_stringify:
  "\<forall>r\<in>set rs. codec_ok cdc r \<Longrightarrow> records_of cdc (map (stringify cdc) rs) = Inr rs"
  by (induction rs) (simp_all add: codec_ok_def)

lemma records_of_ndjson:
  "\<forall>r\<in>set rs. codec_ok cdc r \<Longrightarrow> records_of cdc (readline [] False (ndjson cdc rs)) = Inr rs"
  by (simp add: readline_ndjson records_of_stringify codec_ok_def)

text \<open>the loop with the callback of getAllRecords\<close>

lemma loop_getAll:
  "forEachRecord_loop cdc (\<lambda>data records w. (Inr (Some True, records @ [data]), w)) lines acc w =
     ((case records_of cdc lines of Inl e \<Rightarrow> Inl e | Inr rs \<Rightarrow> Inr (acc @ rs)), w)"
  by (induction lines arbitrary: acc) (auto split: option.split sum.split)

lemma getAllRecords_nofault:
  "faults w = [] \<Longrightarrow>
   fst (getAllRecords cdc waitForUnlock (constructor name) w) =
     (case files w name of None \<Rightarrow> Inr []
      | Some content \<Rightarrow> records_of cdc (readline [] False content))"
  by (simp add: getAllRecords_def forEachRecord_constructor fileExists_nofault fs_read_nofault
      loop_getAll split: option.split sum.split)

text \<open>the loop with the callbacks of updateRecords and deleteRecords\<close>

lemma updateRecords_callback_copy:
  "updateRecords_callback cdc P N =
     copy_callback cdc (\<lambda>r. Some (if P r then N else r)) (\<lambda>r. True)"
  by (intro ext) (simp add: updateRecords_callback_def copy_callback_def split_beta Let_def
      split: sum.split)

lemma deleteRecords_callback_copy:
  "deleteRecords_callback cdc P =
     copy_callback cdc (\<lambda>r. if P r then None else Some r) P"
  by (intro ext) (auto simp: deleteRecords_callback_def copy_callback_def split_beta Let_def
      split: sum.split)

lemma copy_callback_constructor:
  "copy_callback cdc out flag record (constructor p, u) w =
     (case out record of
        None \<Rightarrow> (Inr (Some True, constructor p, u \<or> flag record), w)
      | Some x \<Rightarrow>
          (case fst (writeFile p (stringify cdc x @ [LF]) True w) of
             Inl e \<Rightarrow> (Inl e, snd (writeFile p (stringify cdc x @ [LF]) True w))
           | Inr _ \<Rightarrow> (Inr (Some True, constructor p, u \<or> flag record),
                        snd (writeFile p (stringify cdc x @ [LF]) True w))))"
  by (simp add: copy_callback_def addRecord_constructor split: option.split sum.split)

lemma loop_copy_other:
  "q \<noteq> p \<Longrightarrow>
   files (snd (forEachRecord_loop cdc (copy_callback cdc out flag) lines (constructor p, u) w)) q
     = files w q"
proof (induction lines arbitrary: u w)
  case Nil
  then show ?case by simp
next
  case (Cons line rest)
  show ?case
  proof (cases "trim_falsy line")
    case True
    with Cons show ?thesis by simp
  next
    case False
    show ?thesis
    proof (cases "parse cdc line")
      case None
      with False show ?thesis by simp
    next
      case (Some data)
      show ?thesis
      proof (cases "out data")
        case None
        with False Some Cons show ?thesis
          by (simp add: copy_callback_constructor)
      next
        case out: (Some x)
        let ?wr = "writeFile p (stringify cdc x @ [LF]) True w"
        have keep: "files (snd ?wr) q = files w q"
          using Cons.prems by (simp add: writeFile_files written_def)
        show ?thesis
        proof (cases "fst ?wr")
          case (Inl e)
          with False Some out keep show ?thesis
            by (simp add: copy_callback_constructor)
        next
          case (Inr v)
          with False Some out keep Cons show ?thesis
            by (simp add: copy_callback_constructor)
        qed
      qed
    qed
  qed
qed

lemma loop_copy_faults:
  "faults w = [] \<Longrightarrow>
   faults (snd (forEachRecord_loop cdc (copy_callback cdc out flag) lines (constructor p, u) w)) = []"
proof (induction lines arbitrary: u w)
  case Nil
  then show ?case by simp
next
  case (Cons line rest)
  have wr: "faults (snd (writeFile p c True w)) = []" for c
    using Cons.prems by simp
  show ?case
    using Cons wr
    by (simp add: copy_callback_constructor split: option.split sum.split)
qed

lemma loop_copy_success:
  "forEachRecord_loop cdc (copy_callback cdc out flag) lines (constructor p, u) w = (Inr acc', w') \<Longrightarrow>
   files w p = Some old \<Longrightarrow>
   \<exists>R. records_of cdc lines = Inr R \<and>
       acc' = (constructor p, u \<or> (\<exists>r\<in>set R. flag r)) \<and>
       files w' = (files w)(p \<mapsto> old @ ndjson cdc (List.map_filter out R))"
proof (induction lines arbitrary: u w old)
  case Nil
  then show ?case by (auto simp: ndjson_def List.map_filter_simps)
next
  case (Cons line rest)
  show ?case
  proof (cases "trim_falsy line")
    case True
    with Cons show ?thesis by simp
  next
    case False
    show ?thesis
    proof (cases "parse cdc line")
      case None
      with False Cons.prems show ?thesis by simp
    next
      case (Some data)
      show ?thesis
      proof (cases "out data")
        case None
        with False Some Cons.prems
        have run: "forEachRecord_loop cdc (copy_callback cdc out flag) rest
                     (constructor p, u \<or> flag data) w = (Inr acc', w')"
          by (simp add: copy_callback_constructor)
        from Cons.IH [OF run Cons.prems(2)] obtain R where
          R: "records_of cdc rest = Inr R"
             "acc' = (constructor p, (u \<or> flag data) \<or> (\<exists>r\<in>set R. flag r))"
             "files w' = (files w)(p \<mapsto> old @ ndjson cdc (List.map_filter out R))"
          by blast
        have "records_of cdc (line # rest) = Inr (data # R)"
          using False Some R(1) by simp
        moreover have "List.map_filter out (data # R) = List.map_filter out R"
          using None by (simp add: List.map_filter_simps)
        ultimately show ?thesis
          using R(2,3) by auto
      next
        case out: (Some x)
        let ?wr = "writeFile p (stringify cdc x @ [LF]) True w"
        from False Some out Cons.prems(1) have ok: "\<not> isl (fst ?wr)"
          by (auto simp: copy_callback_constructor split: sum.splits)
        then have files1: "files (snd ?wr) = (files w)(p \<mapsto> old @ stringify cdc x @ [LF])"
          using Cons.prems(2) by (simp add: writeFile_files written_def)
        from False Some out Cons.prems(1) ok
        have run: "forEachRecord_loop cdc (copy_callback cdc out flag) rest
                     (constructor p, u \<or> flag data) (snd ?wr) = (Inr acc', w')"
          by (auto simp: copy_callback_constructor split: sum.splits)
        have at_p: "files (snd ?wr) p = Some (old @ stringify cdc x @ [LF])"
          using files1 by simp
        from Cons.IH [OF run at_p] obtain R where
          R: "records_of cdc rest = Inr R"
             "acc' = (constructor p, (u \<or> flag data) \<or> (\<exists>r\<in>set R. flag r))"
             "files w' = (files (snd ?wr))(p \<mapsto> (old @ stringify cdc x @ [LF]) @
                 ndjson cdc (List.map_filter out R))"
          by blast
        have "records_of cdc (line # rest) = Inr (data # R)"
          using False Some R(1) by simp
        moreover have "List.map_filter out (data # R) = x # List.map_filter out R"
          using out by (simp add: List.map_filter_simps)
        ultimately show ?thesis
          using R(2,3) files1 by (auto simp: ndjson_def)
      qed
    qed
  qed
qed

lemma loop_copy_nofault:
  "faults w = [] \<Longrightarrow> records_of cdc lines = Inr R \<Longrightarrow>
   \<not> isl (fst (forEachRecord_loop cdc (copy_callback cdc out flag) lines (constructor p, u) w))"
proof (induction lines arbitrary: u w R)
  case Nil
  then show ?case by simp
next
  case (Cons line rest)
  have wr: "fst (writeFile p c True w) = Inr ()" "faults (snd (writeFile p c True w)) = []" for c
    using Cons.prems(1) by (simp_all add: writeFile_nofault)
  show ?case
    using Cons wr
    by (auto simp: copy_callback_constructor split: option.splits sum.splits if_splits)
qed

text \<open>the scan of the replace protocol, from the truncated temporary file\<close>

lemma scan_copy_this [simp]:
  "fst (snd (forEachRecord cdc callback waitForUnlock acc (constructor name) w)) = constructor name"
  by (simp add: forEachRecord_constructor split: sum.split)

lemma scan_copy_other:
  "q \<noteq> p \<Longrightarrow>
   files (snd (snd (forEachRecord cdc (copy_callback cdc out flag) waitForUnlock (constructor p, u)
                      (constructor name) w))) q = files w q"
  by (simp add: forEachRecord_constructor loop_copy_other split: sum.split)

lemma scan_copy_faults:
  "faults w = [] \<Longrightarrow>
   faults (snd (snd (forEachRecord cdc (copy_callback cdc out flag) waitForUnlock (constructor p, u)
                      (constructor name) w))) = []"
  by (simp add: forEachRecord_constructor loop_copy_faults split: sum.split)

lemma scan_copy_success:
  assumes run: "fst (forEachRecord cdc (copy_callback cdc out flag) waitForUnlock
                       (constructor p, False) (constructor name) w) = Inr (tw, isUpdated)"
    and tmp: "files w p = Some old"
  shows "tw = constructor p \<and>
         (isUpdated \<longrightarrow>
            (\<exists>content R. files w name = Some content \<and>
               records_of cdc (readline [] False content) = Inr R \<and> (\<exists>r\<in>set R. flag r) \<and>
               files (snd (snd (forEachRecord cdc (copy_callback cdc out flag) waitForUnlock
                                  (constructor p, False) (constructor name) w)))
                 = (files w)(p \<mapsto> old @ ndjson cdc (List.map_filter out R))))"
proof (cases "fst (fileExists name w)")
  case False
  with run show ?thesis
    by (simp add: forEachRecord_constructor)
next
  case True
  let ?w1 = "snd (fileExists name w)"
  let ?rd = "fs_createReadStream name ?w1"
  from run True obtain content where content: "fst ?rd = Inr content"
    by (cases "fst ?rd") (simp_all add: forEachRecord_constructor)
  then have present: "files w name = Some content"
    using fs_read_success [of name ?w1 content] by simp
  let ?lp = "forEachRecord_loop cdc (copy_callback cdc out flag) (readline [] False content)
               (constructor p, False) (snd ?rd)"
  have scan: "forEachRecord cdc (copy_callback cdc out flag) waitForUnlock
                (constructor p, False) (constructor name) w = (fst ?lp, constructor name, snd ?lp)"
    using True content by (simp add: forEachRecord_constructor)
  with run have lp: "?lp = (Inr (tw, isUpdated), snd ?lp)"
    by (simp add: prod_eq_iff)
  have tmp': "files (snd ?rd) p = Some old"
    using tmp by simp
  from loop_copy_success [OF lp tmp'] obtain R where
    R: "records_of cdc (readline [] False content) = Inr R"
       "(tw, isUpdated) = (constructor p, False \<or> (\<exists>r\<in>set R. flag r))"
       "files (snd ?lp) = (files (snd ?rd))(p \<mapsto> old @ ndjson cdc (List.map_filter out R))"
    by blast
  show ?thesis
    using R present scan by auto
qed

lemma scan_copy_nofault_absent:
  "faults w = [] \<Longrightarrow> files w name = None \<Longrightarrow>
   fst (forEachRecord cdc callback waitForUnlock acc (constructor name) w) = Inr acc \<and>
   files (snd (snd (forEachRecord cdc callback waitForUnlock acc (constructor name) w))) = files w"
  by (simp add: forEachRecord_constructor fileExists_nofault)

lemma scan_copy_nofault_present:
  assumes nf: "faults w = []"
    and present: "files w name = Some content"
    and recs: "records_of cdc (readline [] False content) = Inr R"
    and tmp: "files w p = Some old"
  shows "fst (forEachRecord cdc (copy_callback cdc out flag) waitForUnlock
                (constructor p, False) (constructor name) w)
           = Inr (constructor p, \<exists>r\<in>set R. flag r)"
    and "files (snd (snd (forEachRecord cdc (copy_callback cdc out flag) waitForUnlock
                (constructor p, False) (constructor name) w)))
           = (files w)(p \<mapsto> old @ ndjson cdc (List.map_filter out R))"
proof -
  let ?w1 = "snd (fileExists name w)"
  let ?rd = "fs_createReadStream name ?w1"
  let ?lp = "forEachRecord_loop cdc (copy_callback cdc out flag) (readline [] False content)
               (constructor p, False) (snd ?rd)"
  have ex: "fst (fileExists name w)"
    using nf present by (simp add: fileExists_nofault)
  have rd: "fst ?rd = Inr content"
    using nf present by (simp add: fs_read_nofault)
  have scan: "forEachRecord cdc (copy_callback cdc out flag) waitForUnlock
                (constructor p, False) (constructor name) w = (fst ?lp, constructor name, snd ?lp)"
    using ex rd by (simp add: forEachRecord_constructor)
  have "faults (snd ?rd) = []"
    using nf by simp
  then have "\<not> isl (fst ?lp)"
    using recs by (rule loop_copy_nofault)
  then obtain acc' where acc': "fst ?lp = Inr acc'"
    by (cases "fst ?lp") auto
  then have lp: "?lp = (Inr acc', snd ?lp)"
    by (simp add: prod_eq_iff)
  have tmp': "files (snd ?rd) p = Some old"
    using tmp by simp
  from loop_copy_success [OF lp tmp'] recs
  have "acc' = (constructor p, \<exists>r\<in>set R. flag r)"
    and "files (snd ?lp) = (files w)(p \<mapsto> old @ ndjson cdc (List.map_filter out R))"
    by auto
  with scan acc' show
    "fst (forEachRecord cdc (copy_callback cdc out flag) waitForUnlock
                (constructor p, False) (constructor name) w)
           = Inr (constructor p, \<exists>r\<in>set R. flag r)"
    and "files (snd (snd (forEachRecord cdc (copy_callback cdc out flag) waitForUnlock
                (constructor p, False) (constructor name) w)))
           = (files w)(p \<mapsto> old @ ndjson cdc (List.map_filter out R))"
    by simp_all
qed

text \<open>the phases of the replace protocol on a constructed instance\<close>

lemma updateRecords_constructor:
  "updateRecords cdc P N (constructor name) w =
     (case fst (writeFile (name @ ''.tmp.ndjson'') [] False w) of
        Inl e \<Rightarrow> (Inl e, constructor name, snd (writeFile (name @ ''.tmp.ndjson'') [] False w))
      | Inr _ \<Rightarrow>
          (case fst (scan_phase cdc (\<lambda>r. Some (if P r then N else r)) (\<lambda>r. True) name w) of
             Inl e \<Rightarrow>
               (Inl e, constructor name,
                snd (snd (scan_phase cdc (\<lambda>r. Some (if P r then N else r)) (\<lambda>r. True) name w)))
           | Inr acc \<Rightarrow>
               if snd acc then
                 (fst (swap_phase name
                    (snd (snd (scan_phase cdc (\<lambda>r. Some (if P r then N else r)) (\<lambda>r. True) name w)))),
                  constructor name,
                  snd (swap_phase name
                    (snd (snd (scan_phase cdc (\<lambda>r. Some (if P r then N else r)) (\<lambda>r. True) name w)))))
               else
                 (Inr (), constructor name,
                  snd (snd (scan_phase cdc (\<lambda>r. Some (if P r then N else r)) (\<lambda>r. True) name w)))))"
  by (simp add: updateRecords_def lockAndExecute_run getTmpWriter_def deleteAllRecords_constructor
      updateRecords_callback_copy scan_phase_def swap_phase_def split_beta split: sum.split)

lemma deleteRecords_constructor:
  "deleteRecords cdc P (constructor name) w =
     (case fst (writeFile (name @ ''.tmp.ndjson'') [] False w) of
        Inl e \<Rightarrow> (Inl e, constructor name, snd (writeFile (name @ ''.tmp.ndjson'') [] False w))
      | Inr _ \<Rightarrow>
          (case fst (scan_phase cdc (\<lambda>r. if P r then None else Some r) P name w) of
             Inl e \<Rightarrow>
               (Inl e, constructor name,
                snd (snd (scan_phase cdc (\<lambda>r. if P r then None else Some r) P name w)))
           | Inr acc \<Rightarrow>
               if snd acc then
                 ((case fst (swap_phase name
                      (snd (snd (scan_phase cdc (\<lambda>r. if P r then None else Some r) P name w)))) of
                     Inl err \<Rightarrow> Inl (Thrown ''Could not properly delete database entry'')
                   | Inr u \<Rightarrow> Inr u),
                  constructor name,
                  snd (swap_phase name
                    (snd (snd (scan_phase cdc (\<lambda>r. if P r then None else Some r) P name w)))))
               else
                 (Inr (), constructor name,
                  snd (deleteFile (name @ ''.tmp.ndjson'')
                    (snd (snd (scan_phase cdc (\<lambda>r. if P r then None else Some r) P name w)))))))"
  by (simp add: deleteRecords_def lockAndExecute_run getTmpWriter_def deleteAllRecords_constructor
      deleteRecords_callback_copy scan_phase_def swap_phase_def split_beta split: sum.split)

lemma swap_phase_outcomes:
  assumes "files w (name @ ''.tmp.ndjson'') = Some t"
  shows "isl (fst (swap_phase name w)) \<and> files (snd (swap_phase name w)) name = files w name \<or>
         isl (fst (swap_phase name w)) \<and> files (snd (swap_phase name w)) name = None \<and>
           files (snd (swap_phase name w)) (name @ ''.tmp.ndjson'') = Some t \<or>
         fst (swap_phase name w) = Inr () \<and> files (snd (swap_phase name w)) name = Some t"
proof -
  let ?dl = "deleteFile name w"
  let ?rn = "renameFile (name @ ''.tmp.ndjson'') name (snd ?dl)"
  have dl: "files (snd ?dl) = files w \<or> files (snd ?dl) = (files w)(name := None)"
    by (simp add: deleteFile_files)
  then have tmp: "files (snd ?dl) (name @ ''.tmp.ndjson'') = Some t"
    using assms by auto
  show ?thesis
  proof (cases "fst ?rn")
    case (Inl e)
    then have "files (snd ?rn) = files (snd ?dl)"
      by (simp add: renameFile_files)
    with dl tmp Inl show ?thesis
      by (auto simp: swap_phase_def)
  next
    case (Inr u)
    then have "files (snd ?rn) name = Some t"
      using tmp by (simp add: renameFile_files)
    with Inr show ?thesis
      by (simp add: swap_phase_def)
  qed
qed

lemma swap_phase_nofault:
  assumes "faults w = []" "files w name = Some c" "files w (name @ ''.tmp.ndjson'') = Some t"
  shows "fst (swap_phase name w) = Inr ()"
    and "files (snd (swap_phase name w)) = (files w)(name @ ''.tmp.ndjson'' := None, name \<mapsto> t)"
    and "faults (snd (swap_phase name w)) = []"
proof -
  let ?dl = "deleteFile name w"
  have dl: "fst ?dl = Inr ()" "faults (snd ?dl) = []"
    using assms by (simp_all add: deleteFile_nofault)
  then have fdl: "files (snd ?dl) = (files w)(name := None)"
    by (simp add: deleteFile_files)
  then have tmp: "files (snd ?dl) (name @ ''.tmp.ndjson'') = Some t"
    using assms by simp
  with dl show rn: "fst (swap_phase name w) = Inr ()"
    by (simp add: swap_phase_def renameFile_nofault)
  then show "files (snd (swap_phase name w)) = (files w)(name @ ''.tmp.ndjson'' := None, name \<mapsto> t)"
    using fdl assms by (auto simp: swap_phase_def renameFile_files)
  show "faults (snd (swap_phase name w)) = []"
    using dl by (simp add: swap_phase_def)
qed

lemma truncated:
  "\<not> isl (fst (writeFile p [] False w)) \<Longrightarrow> files (snd (writeFile p [] False w)) = (files w)(p \<mapsto> [])"
  by (simp add: writeFile_files written_def)

lemma truncate_other: "q \<noteq> p \<Longrightarrow> files (snd (writeFile p c a w)) q = files w q"
  by (simp add: writeFile_files written_def)

lemma scan_phase_this [simp]: "fst (snd (scan_phase cdc out flag name w)) = constructor name"
  by (simp add: scan_phase_def)

lemma scan_phase_backing:
  "files (snd (snd (scan_phase cdc out flag name w))) name = files w name"
  by (simp add: scan_phase_def scan_copy_other truncate_other)

lemma scan_phase_updated:
  assumes tr: "\<not> isl (fst (writeFile (name @ ''.tmp.ndjson'') [] False w))"
    and run: "fst (scan_phase cdc out flag name w) = Inr acc" and upd: "snd acc"
  shows "\<exists>content R. files w name = Some content \<and>
           records_of cdc (readline [] False content) = Inr R \<and> (\<exists>r\<in>set R. flag r) \<and>
           files (snd (snd (scan_phase cdc out flag name w)))
             = (files w)(name @ ''.tmp.ndjson'' \<mapsto> ndjson cdc (List.map_filter out R))"
proof -
  let ?w1 = "snd (writeFile (name @ ''.tmp.ndjson'') [] False w)"
  have f1: "files ?w1 = (files w)(name @ ''.tmp.ndjson'' \<mapsto> [])"
    using tr by (rule truncated)
  then have tmp: "files ?w1 (name @ ''.tmp.ndjson'') = Some []"
    by simp
  from run have run': "fst (forEachRecord cdc (copy_callback cdc out flag) False
          (constructor (name @ ''.tmp.ndjson''), False) (constructor name) ?w1) = Inr (fst acc, snd acc)"
    by (simp add: scan_phase_def)
  from scan_copy_success [OF run' tmp] upd f1 show ?thesis
    by (auto simp: scan_phase_def)
qed

lemma scan_phase_nofault_absent:
  assumes "faults w = []" "files w name = None"
  shows "fst (scan_phase cdc out flag name w) = Inr (constructor (name @ ''.tmp.ndjson''), False)"
    and "files (snd (snd (scan_phase cdc out flag name w))) = (files w)(name @ ''.tmp.ndjson'' \<mapsto> [])"
    and "faults (snd (snd (scan_phase cdc out flag name w))) = []"
proof -
  let ?w1 = "snd (writeFile (name @ ''.tmp.ndjson'') [] False w)"
  have w1: "faults ?w1 = []" "files ?w1 = (files w)(name @ ''.tmp.ndjson'' \<mapsto> [])"
    using assms by (simp_all add: truncated writeFile_nofault)
  then have absent: "files ?w1 name = None"
    using assms by simp
  show "fst (scan_phase cdc out flag name w) = Inr (constructor (name @ ''.tmp.ndjson''), False)"
    and "files (snd (snd (scan_phase cdc out flag name w))) = (files w)(name @ ''.tmp.ndjson'' \<mapsto> [])"
    using w1 absent by (simp_all add: scan_phase_def scan_copy_nofault_absent)
  show "faults (snd (snd (scan_phase cdc out flag name w))) = []"
    using w1(1) by (simp add: scan_phase_def scan_copy_faults)
qed

lemma scan_phase_nofault_present:
  assumes "faults w = []" "files w name = Some content"
    and "records_of cdc (readline [] False content) = Inr R"
  shows "fst (scan_phase cdc out flag name w)
           = Inr (constructor (name @ ''.tmp.ndjson''), \<exists>r\<in>set R. flag r)"
    and "files (snd (snd (scan_phase cdc out flag name w)))
           = (files w)(name @ ''.tmp.ndjson'' \<mapsto> ndjson cdc (List.map_filter out R))"
    and "faults (snd (snd (scan_phase cdc out flag name w))) = []"
proof -
  let ?w1 = "snd (writeFile (name @ ''.tmp.ndjson'') [] False w)"
  have w1: "faults ?w1 = []" "files ?w1 = (files w)(name @ ''.tmp.ndjson'' \<mapsto> [])"
    using assms by (simp_all add: truncated writeFile_nofault)
  then have present: "files ?w1 name = Some content" and tmp: "files ?w1 (name @ ''.tmp.ndjson'') = Some []"
    using assms by simp_all
  from scan_copy_nofault_present [OF w1(1) present assms(3) tmp] w1
  show "fst (scan_phase cdc out flag name w)
           = Inr (constructor (name @ ''.tmp.ndjson''), \<exists>r\<in>set R. flag r)"
    and "files (snd (snd (scan_phase cdc out flag name w)))
           = (files w)(name @ ''.tmp.ndjson'' \<mapsto> ndjson cdc (List.map_filter out R))"
    by (simp_all add: scan_phase_def)
  show "faults (snd (snd (scan_phase cdc out flag name w))) = []"
    using w1(1) by (simp add: scan_phase_def scan_copy_faults)
qed

lemma map_filter_update: "List.map_filter (\<lambda>r. Some (f r)) R = map f R"
  by (induction R) (simp_all add: List.map_filter_simps)

lemma map_filter_delete: "List.map_filter (\<lambda>r. if P r then None else Some r) R = filter (\<lambda>r. \<not> P r) R"
  by (induction R) (simp_all add: List.map_filter_simps)

lemma ndjson_Nil [simp]: "ndjson cdc [] = []"
  by (simp add: ndjson_def)

lemma updateRecords_this [simp]:
  "fst (snd (updateRecords cdc P N (constructor name) w)) = constructor name"
  by (simp add: updateRecords_constructor split: sum.split)

lemma deleteRecords_this [simp]:
  "fst (snd (deleteRecords cdc P (constructor name) w)) = constructor name"
  by (simp add: deleteRecords_constructor split: sum.split)

lemma updateRecords_nofault_absent:
  assumes "faults w = []" "files w name = None"
  shows "fst (updateRecords cdc P N (constructor name) w) = Inr ()"
    and "files (snd (snd (updateRecords cdc P N (constructor name) w)))
           = (files w)(name @ ''.tmp.ndjson'' \<mapsto> [])"
    and "faults (snd (snd (updateRecords cdc P N (constructor name) w))) = []"
  using assms
  by (simp_all add: updateRecords_constructor writeFile_nofault scan_phase_nofault_absent)

lemma updateRecords_nofault_present:
  assumes nf: "faults w = []" and present: "files w name = Some content"
    and recs: "records_of cdc (readline [] False content) = Inr R"
  shows "fst (updateRecords cdc P N (constructor name) w) = Inr ()"
    and "files (snd (snd (updateRecords cdc P N (constructor name) w)))
           = (if R = [] then (files w)(name @ ''.tmp.ndjson'' \<mapsto> [])
              else (files w)(name @ ''.tmp.ndjson'' := None,
                     name \<mapsto> ndjson cdc (map (\<lambda>r. if P r then N else r) R)))"
    and "faults (snd (snd (updateRecords cdc P N (constructor name) w))) = []"
proof -
  let ?out = "\<lambda>r. Some (if P r then N else r)"
  let ?sc = "scan_phase cdc ?out (\<lambda>r. True) name w"
  let ?w2 = "snd (snd ?sc)"
  note sc = scan_phase_nofault_present [OF nf present recs, of ?out "\<lambda>r. True"]
  have upd: "(\<exists>r\<in>set R. True) = (R \<noteq> [])"
    by (cases R) auto
  have w2: "faults ?w2 = []" "files ?w2 name = Some content"
    "files ?w2 (name @ ''.tmp.ndjson'') = Some (ndjson cdc (map (\<lambda>r. if P r then N else r) R))"
    using sc present by (simp_all add: map_filter_update)
  note sw = swap_phase_nofault [OF w2]
  show "fst (updateRecords cdc P N (constructor name) w) = Inr ()"
    using nf sc(1) sw(1) by (simp add: updateRecords_constructor writeFile_nofault)
  show "files (snd (snd (updateRecords cdc P N (constructor name) w)))
           = (if R = [] then (files w)(name @ ''.tmp.ndjson'' \<mapsto> [])
              else (files w)(name @ ''.tmp.ndjson'' := None,
                     name \<mapsto> ndjson cdc (map (\<lambda>r. if P r then N else r) R)))"
    using nf sc(1,2) sw(2) upd
    by (auto simp: updateRecords_constructor writeFile_nofault map_filter_update)
  show "faults (snd (snd (updateRecords cdc P N (constructor name) w))) = []"
    using nf sc(1,3) sw(3) by (simp add: updateRecords_constructor writeFile_nofault)
qed

lemma deleteRecords_nofault_absent:
  assumes "faults w = []" "files w name = None"
  shows "fst (deleteRecords cdc P (constructor name) w) = Inr ()"
    and "files (snd (snd (deleteRecords cdc P (constructor name) w)))
           = (files w)(name @ ''.tmp.ndjson'' := None)"
    and "faults (snd (snd (deleteRecords cdc P (constructor name) w))) = []"
proof -
  let ?sc = "scan_phase cdc (\<lambda>r. if P r then None else Some r) P name w"
  note sc = scan_phase_nofault_absent [OF assms, of cdc "\<lambda>r. if P r then None else Some r" P]
  have dl: "fst (deleteFile (name @ ''.tmp.ndjson'') (snd (snd ?sc))) = Inr ()"
    using sc by (simp add: deleteFile_nofault)
  show "fst (deleteRecords cdc P (constructor name) w) = Inr ()"
    using assms sc(1) by (simp add: deleteRecords_constructor writeFile_nofault)
  show "files (snd (snd (deleteRecords cdc P (constructor name) w)))
           = (files w)(name @ ''.tmp.ndjson'' := None)"
    using assms sc(1,2) dl
    by (auto simp: deleteRecords_constructor writeFile_nofault deleteFile_files)
  show "faults (snd (snd (deleteRecords cdc P (constructor name) w))) = []"
    using assms sc(1,3) by (simp add: deleteRecords_constructor writeFile_nofault)
qed

lemma deleteRecords_nofault_present:
  assumes nf: "faults w = []" and present: "files w name = Some content"
    and recs: "records_of cdc (readline [] False content) = Inr R"
  shows "fst (deleteRecords cdc P (constructor name) w) = Inr ()"
    and "files (snd (snd (deleteRecords cdc P (constructor name) w)))
           = (if \<exists>r\<in>set R. P r
              then (files w)(name @ ''.tmp.ndjson'' := None,
                     name \<mapsto> ndjson cdc (filter (\<lambda>r. \<not> P r) R))
              else (files w)(name @ ''.tmp.ndjson'' := None))"
    and "faults (snd (snd (deleteRecords cdc P (constructor name) w))) = []"
proof -
  let ?out = "\<lambda>r. if P r then None else Some r"
  let ?sc = "scan_phase cdc ?out P name w"
  let ?w2 = "snd (snd ?sc)"
  note sc = scan_phase_nofault_present [OF nf present recs, of ?out P]
  have w2: "faults ?w2 = []" "files ?w2 name = Some content"
    "files ?w2 (name @ ''.tmp.ndjson'') = Some (ndjson cdc (filter (\<lambda>r. \<not> P r) R))"
    using sc present by (simp_all add: map_filter_delete)
  note sw = swap_phase_nofault [OF w2]
  have dl: "fst (deleteFile (name @ ''.tmp.ndjson'') ?w2) = Inr ()"
    using w2 by (simp add: deleteFile_nofault)
  show "fst (deleteRecords cdc P (constructor name) w) = Inr ()"
    using nf sc(1) sw(1) by (simp add: deleteRecords_constructor writeFile_nofault)
  show "files (snd (snd (deleteRecords cdc P (constructor name) w)))
           = (if \<exists>r\<in>set R. P r
              then (files w)(name @ ''.tmp.ndjson'' := None,
                     name \<mapsto> ndjson cdc (filter (\<lambda>r. \<not> P r) R))
              else (files w)(name @ ''.tmp.ndjson'' := None))"
    using nf sc(1,2) sw(2) dl
    by (auto simp: deleteRecords_constructor writeFile_nofault map_filter_delete deleteFile_files)
  show "faults (snd (snd (deleteRecords cdc P (constructor name) w))) = []"
    using nf sc(1,3) sw(3) by (simp add: deleteRecords_constructor writeFile_nofault)
qed


lemma json_bool_ok: "codec_ok json_bool b"
  by (cases b) (simp_all add: codec_ok_def json_bool_def trim_falsy_def is_space_def LF_def CR_def)

lemma disk_fields [simp]:
  "files (disk fs plan) = map_of fs" "faults (disk fs plan) = plan" "trace (disk fs plan) = []"
  by (simp_all add: disk_def)

lemma addRecords_nofault:
  assumes "faults w = []"
  shows "fst (addRecords cdc R (constructor name) w) = Inr ()"
    and "files (snd (snd (addRecords cdc R (constructor name) w)))
           = written (files w) name (ndjson cdc R) True"
    and "faults (snd (snd (addRecords cdc R (constructor name) w))) = []"
    and "fst (snd (addRecords cdc R (constructor name) w)) = constructor name"
  using assms by (simp_all add: addRecords_constructor writeFile_nofault writeFile_files)

lemma forEachRecord_stat_fails:
  "isl (fst (fs_stat name w)) \<Longrightarrow>
   fst (forEachRecord cdc callback waitForUnlock acc (constructor name) w) = Inr acc"
  by (simp add: forEachRecord_constructor fileExists_fst)

text \<open>successful renames, and the outcomes of the replace protocol under injected failures\<close>

lemma renamed_logged:
  "renamed (logged c ok w) =
     renamed w @ (case (c, ok) of (Rename a b, True) \<Rightarrow> [(a, b)] | _ \<Rightarrow> [])"
  by (simp add: renamed_def logged_def List.map_filter_def split: fs_call.split bool.split)

lemma renamed_inject [simp]: "renamed (snd (inject w)) = renamed w"
  by (cases "faults w") (simp_all add: inject_def renamed_def)

lemma renamed_files_update [simp]: "renamed (w\<lparr>files := fs\<rparr>) = renamed w"
  by (simp add: renamed_def)

lemma renamed_faults_update [simp]: "renamed (w\<lparr>faults := fs\<rparr>) = renamed w"
  by (simp add: renamed_def)

lemma renamed_stat [simp]: "renamed (snd (fs_stat p w)) = renamed w"
  by (simp add: fs_stat_def split_beta renamed_logged split: option.split)

lemma renamed_fileExists [simp]: "renamed (snd (fileExists p w)) = renamed w"
  using renamed_stat [of p w]
  by (simp add: fileExists_def split_beta split: sum.split)

lemma renamed_read [simp]: "renamed (snd (fs_createReadStream p w)) = renamed w"
  by (simp add: fs_createReadStream_def split_beta renamed_logged split: option.split)

lemma renamed_writeFile [simp]: "renamed (snd (writeFile p c a w)) = renamed w"
  by (simp add: writeFile_def fs_writeFile_def split_beta renamed_logged)

lemma renamed_deleteFile [simp]: "renamed (snd (deleteFile p w)) = renamed w"
  by (simp add: deleteFile_def fs_unlink_def split_beta renamed_logged split: option.split)

lemma renamed_renameFile:
  "renamed (snd (renameFile a b w)) = renamed w @ (if isl (fst (renameFile a b w)) then [] else [(a, b)])"
  by (simp add: renameFile_def fs_rename_def split_beta renamed_logged split: option.split)

lemma renamed_loop_copy [simp]:
  "renamed (snd (forEachRecord_loop cdc (copy_callback cdc out flag) lines (constructor p, u) w))
     = renamed w"
proof (induction lines arbitrary: u w)
  case Nil
  then show ?case by simp
next
  case (Cons line rest)
  show ?case
    using Cons [of _ w] Cons [of _ "snd (writeFile p c True w)" for c]
    by (simp add: copy_callback_constructor split: option.split sum.split)
qed

lemma renamed_scan_phase [simp]: "renamed (snd (snd (scan_phase cdc out flag name w))) = renamed w"
  by (simp add: scan_phase_def forEachRecord_constructor split: sum.split)

lemma renamed_swap_phase:
  "renamed (snd (swap_phase name w)) =
     renamed w @ (if isl (fst (swap_phase name w)) then [] else [(name @ ''.tmp.ndjson'', name)])"
  by (simp add: swap_phase_def renamed_renameFile)


lemma swap_branch:
  assumes tr: "\<not> isl (fst (writeFile (name @ ''.tmp.ndjson'') [] False w))"
    and run: "fst (scan_phase cdc out flag name w) = Inr acc" and upd: "snd acc"
    and intended: "\<And>content R. files w name = Some content \<Longrightarrow>
          records_of cdc (readline [] False content) = Inr R \<Longrightarrow> \<exists>r\<in>set R. flag r \<Longrightarrow>
          intended = Some (ndjson cdc (List.map_filter out R))"
  shows "(renamed (snd (swap_phase name (snd (snd (scan_phase cdc out flag name w))))) = renamed w \<longrightarrow>
            files (snd (swap_phase name (snd (snd (scan_phase cdc out flag name w))))) name = files w name \<or>
            (\<exists>c. intended = Some c \<and>
                 files (snd (swap_phase name (snd (snd (scan_phase cdc out flag name w))))) name = None \<and>
                 files (snd (swap_phase name (snd (snd (scan_phase cdc out flag name w)))))
                   (name @ ''.tmp.ndjson'') = Some c)) \<and>
         (renamed (snd (swap_phase name (snd (snd (scan_phase cdc out flag name w))))) \<noteq> renamed w \<longrightarrow>
            (\<exists>c. intended = Some c \<and>
                 files (snd (swap_phase name (snd (snd (scan_phase cdc out flag name w))))) name = Some c))"
proof -
  let ?w2 = "snd (snd (scan_phase cdc out flag name w))"
  from scan_phase_updated [OF tr run upd] obtain content R where
    R: "files w name = Some content" "records_of cdc (readline [] False content) = Inr R"
       "\<exists>r\<in>set R. flag r"
       "files ?w2 = (files w)(name @ ''.tmp.ndjson'' \<mapsto> ndjson cdc (List.map_filter out R))"
    by blast
  let ?t = "ndjson cdc (List.map_filter out R)"
  have int: "intended = Some ?t"
    using R(1,2,3) by (rule intended)
  have tmp: "files ?w2 (name @ ''.tmp.ndjson'') = Some ?t"
    using R(4) by simp
  have same: "files ?w2 name = files w name"
    by (rule scan_phase_backing)
  have rn: "renamed (snd (swap_phase name ?w2)) =
      renamed w @ (if isl (fst (swap_phase name ?w2)) then [] else [(name @ ''.tmp.ndjson'', name)])"
    by (simp add: renamed_swap_phase)
  from swap_phase_outcomes [OF tmp] show ?thesis
    using int same rn by auto
qed

lemma updateRecords_outcomes:
  "(renamed (snd (snd (updateRecords cdc P N (constructor name) w))) = renamed w \<longrightarrow>
      files (snd (snd (updateRecords cdc P N (constructor name) w))) name = files w name \<or>
      (\<exists>c. files (snd (snd (updateRecords cdc P N (constructor name) (w\<lparr>faults := []\<rparr>)))) name = Some c \<and>
           files (snd (snd (updateRecords cdc P N (constructor name) w))) name = None \<and>
           files (snd (snd (updateRecords cdc P N (constructor name) w))) (name @ ''.tmp.ndjson'') = Some c)) \<and>
   (renamed (snd (snd (updateRecords cdc P N (constructor name) w))) \<noteq> renamed w \<longrightarrow>
      (\<exists>c. files (snd (snd (updateRecords cdc P N (constructor name) (w\<lparr>faults := []\<rparr>)))) name = Some c \<and>
           files (snd (snd (updateRecords cdc P N (constructor name) w))) name = Some c))"
proof -
  let ?out = "\<lambda>r. Some (if P r then N else r)"
  let ?tr = "writeFile (name @ ''.tmp.ndjson'') [] False w"
  let ?sc = "scan_phase cdc ?out (\<lambda>r. True) name w"
  let ?intended = "files (snd (snd (updateRecords cdc P N (constructor name) (w\<lparr>faults := []\<rparr>)))) name"
  show ?thesis
  proof (cases "fst ?tr")
    case (Inl e)
    then show ?thesis
      by (simp add: updateRecords_constructor truncate_other)
  next
    case tr: (Inr u)
    show ?thesis
    proof (cases "fst ?sc")
      case (Inl e)
      with tr show ?thesis
        by (simp add: updateRecords_constructor scan_phase_backing)
    next
      case (Inr acc)
      show ?thesis
      proof (cases "snd acc")
        case False
        with tr Inr show ?thesis
          by (simp add: updateRecords_constructor scan_phase_backing)
      next
        case True
        have int: "?intended = Some (ndjson cdc (List.map_filter ?out R))"
          if "files w name = Some content" "records_of cdc (readline [] False content) = Inr R"
            "\<exists>r\<in>set R. True" for content R
        proof -
          have "faults (w\<lparr>faults := []\<rparr>) = []" "files (w\<lparr>faults := []\<rparr>) name = Some content"
            using that by simp_all
          from updateRecords_nofault_present(2) [OF this that(2), of P N] that(3)
          show ?thesis
            by (auto simp: map_filter_update)
        qed
        have "\<not> isl (fst ?tr)"
          using tr by simp
        from swap_branch [OF this Inr True int] tr Inr True show ?thesis
          by (simp add: updateRecords_constructor)
      qed
    qed
  qed
qed

lemma deleteRecords_outcomes:
  "(renamed (snd (snd (deleteRecords cdc P (constructor name) w))) = renamed w \<longrightarrow>
      files (snd (snd (deleteRecords cdc P (constructor name) w))) name = files w name \<or>
      (\<exists>c. files (snd (snd (deleteRecords cdc P (constructor name) (w\<lparr>faults := []\<rparr>)))) name = Some c \<and>
           files (snd (snd (deleteRecords cdc P (constructor name) w))) name = None \<and>
           files (snd (snd (deleteRecords cdc P (constructor name) w))) (name @ ''.tmp.ndjson'') = Some c)) \<and>
   (renamed (snd (snd (deleteRecords cdc P (constructor name) w))) \<noteq> renamed w \<longrightarrow>
      (\<exists>c. files (snd (snd (deleteRecords cdc P (constructor name) (w\<lparr>faults := []\<rparr>)))) name = Some c \<and>
           files (snd (snd (deleteRecords cdc P (constructor name) w))) name = Some c))"
proof -
  let ?out = "\<lambda>r. if P r then None else Some r"
  let ?tr = "writeFile (name @ ''.tmp.ndjson'') [] False w"
  let ?sc = "scan_phase cdc ?out P name w"
  let ?intended = "files (snd (snd (deleteRecords cdc P (constructor name) (w\<lparr>faults := []\<rparr>)))) name"
  show ?thesis
  proof (cases "fst ?tr")
    case (Inl e)
    then show ?thesis
      by (simp add: deleteRecords_constructor truncate_other)
  next
    case tr: (Inr u)
    show ?thesis
    proof (cases "fst ?sc")
      case (Inl e)
      with tr show ?thesis
        by (simp add: deleteRecords_constructor scan_phase_backing)
    next
      case (Inr acc)
      show ?thesis
      proof (cases "snd acc")
        case False
        have "files (snd (deleteFile (name @ ''.tmp.ndjson'') (snd (snd ?sc)))) name
                = files (snd (snd ?sc)) name"
          by (simp add: deleteFile_files)
        with tr Inr False show ?thesis
          by (simp add: deleteRecords_constructor scan_phase_backing)
      next
        case True
        have int: "?intended = Some (ndjson cdc (List.map_filter ?out R))"
          if "files w name = Some content" "records_of cdc (readline [] False content) = Inr R"
            "\<exists>r\<in>set R. P r" for content R
        proof -
          have "faults (w\<lparr>faults := []\<rparr>) = []" "files (w\<lparr>faults := []\<rparr>) name = Some content"
            using that by simp_all
          from deleteRecords_nofault_present(2) [OF this that(2), of P] that(3)
          show ?thesis
            by (auto simp: map_filter_delete)
        qed
        have "\<not> isl (fst ?tr)"
          using tr by simp
        from swap_branch [OF this Inr True int] tr Inr True show ?thesis
          by (simp add: deleteRecords_constructor)
      qed
    qed
  qed
qed

text \<open>what a call that completed under injected failures has stored\<close>

lemma injected_nofault [simp]: "faults w = [] \<Longrightarrow> \<not> injected n w"
  by (simp add: injected_def)

lemma inject_fst: "fst (inject w) = injected 0 w"
  by (cases "faults w") (simp_all add: inject_def injected_def)

lemma injected_later: "faults w' = tl (faults w) \<Longrightarrow> injected n w' = injected (Suc n) w"
  by (cases "faults w") (simp_all add: injected_def)

lemma writeFile_fst: "fst (writeFile p c a w) = (if injected 0 w then Inl (EIO p) else Inr ())"
  using inject_fst [of w] by (simp add: writeFile_def fs_writeFile_def split_beta)

lemma fs_stat_isl: "isl (fst (fs_stat p w)) = (injected 0 w \<or> files w p = None)"
  using inject_fst [of w] by (simp add: fs_stat_def split_beta split: option.split)

lemma fileExists_injected: "fst (fileExists p w) = (\<not> injected 0 w \<and> files w p \<noteq> None)"
  by (simp add: fileExists_fst fs_stat_isl)

lemma fs_read_fst:
  "fst (fs_createReadStream p w) =
     (if injected 0 w then Inl (EIO p)
      else (case files w p of None \<Rightarrow> Inl (ENOENT p) | Some c \<Rightarrow> Inr c))"
  using inject_fst [of w] by (simp add: fs_createReadStream_def split_beta split: option.split)

lemma stored_records:
  "fst (getAllRecords cdc waitForUnlock (constructor name) (w\<lparr>faults := []\<rparr>)) =
     (case files w name of None \<Rightarrow> Inr []
      | Some content \<Rightarrow> records_of cdc (readline [] False content))"
  by (simp add: getAllRecords_nofault)

lemma scan_copy_result:
  assumes run: "fst (forEachRecord cdc (copy_callback cdc out flag) waitForUnlock
                       (constructor p, False) (constructor name) w) = Inr (tw, isUpdated)"
    and tmp: "files w p = Some old"
  shows "\<not> fst (fileExists name w) \<and> \<not> isUpdated \<or>
         (\<exists>content R. files w name = Some content \<and>
            records_of cdc (readline [] False content) = Inr R \<and>
            isUpdated = (\<exists>r\<in>set R. flag r) \<and>
            files (snd (snd (forEachRecord cdc (copy_callback cdc out flag) waitForUnlock
                               (constructor p, False) (constructor name) w)))
              = (files w)(p \<mapsto> old @ ndjson cdc (List.map_filter out R)))"
proof (cases "fst (fileExists name w)")
  case False
  with run show ?thesis
    by (simp add: forEachRecord_constructor)
next
  case True
  let ?w1 = "snd (fileExists name w)"
  let ?rd = "fs_createReadStream name ?w1"
  from run True obtain content where content: "fst ?rd = Inr content"
    by (cases "fst ?rd") (simp_all add: forEachRecord_constructor)
  then have present: "files w name = Some content"
    using fs_read_success [of name ?w1 content] by simp
  let ?lp = "forEachRecord_loop cdc (copy_callback cdc out flag) (readline [] False content)
               (constructor p, False) (snd ?rd)"
  have scan: "forEachRecord cdc (copy_callback cdc out flag) waitForUnlock
                (constructor p, False) (constructor name) w = (fst ?lp, constructor name, snd ?lp)"
    using True content by (simp add: forEachRecord_constructor)
  with run have lp: "?lp = (Inr (tw, isUpdated), snd ?lp)"
    by (simp add: prod_eq_iff)
  have tmp': "files (snd ?rd) p = Some old"
    using tmp by simp
  from loop_copy_success [OF lp tmp'] obtain R where
    R: "records_of cdc (readline [] False content) = Inr R"
       "(tw, isUpdated) = (constructor p, False \<or> (\<exists>r\<in>set R. flag r))"
       "files (snd ?lp) = (files (snd ?rd))(p \<mapsto> old @ ndjson cdc (List.map_filter out R))"
    by blast
  show ?thesis
    using R present scan by auto
qed

lemma scan_phase_unchanged:
  assumes tr: "\<not> isl (fst (writeFile (name @ ''.tmp.ndjson'') [] False w))"
    and run: "fst (scan_phase cdc out flag name w) = Inr acc" and same: "\<not> snd acc"
    and stat: "\<not> injected 1 w"
  shows "files w name = None \<or>
         (\<exists>content R. files w name = Some content \<and>
            records_of cdc (readline [] False content) = Inr R \<and> \<not> (\<exists>r\<in>set R. flag r))"
proof -
  let ?w1 = "snd (writeFile (name @ ''.tmp.ndjson'') [] False w)"
  have f1: "files ?w1 = (files w)(name @ ''.tmp.ndjson'' \<mapsto> [])"
    using tr by (rule truncated)
  then have tmp: "files ?w1 (name @ ''.tmp.ndjson'') = Some []"
    by simp
  have "injected 0 ?w1 = injected (Suc 0) w"
    by (rule injected_later) simp
  with stat have ex: "fst (fileExists name ?w1) = (files w name \<noteq> None)"
    using f1 by (simp add: fileExists_injected)
  from run have run': "fst (forEachRecord cdc (copy_callback cdc out flag) False
          (constructor (name @ ''.tmp.ndjson''), False) (constructor name) ?w1) = Inr (fst acc, snd acc)"
    by (simp add: scan_phase_def)
  from scan_copy_result [OF run' tmp] same ex f1 show ?thesis
    by auto
qed


lemma swap_success:
  assumes tr: "\<not> isl (fst (writeFile (name @ ''.tmp.ndjson'') [] False w))"
    and run: "fst (scan_phase cdc out flag name w) = Inr acc" and upd: "snd acc"
    and sw: "\<not> isl (fst (swap_phase name (snd (snd (scan_phase cdc out flag name w)))))"
  shows "\<exists>content R. files w name = Some content \<and>
           records_of cdc (readline [] False content) = Inr R \<and> (\<exists>r\<in>set R. flag r) \<and>
           files (snd (swap_phase name (snd (snd (scan_phase cdc out flag name w))))) name
             = Some (ndjson cdc (List.map_filter out R))"
proof -
  let ?w2 = "snd (snd (scan_phase cdc out flag name w))"
  from scan_phase_updated [OF tr run upd] obtain content R where
    R: "files w name = Some content" "records_of cdc (readline [] False content) = Inr R"
       "\<exists>r\<in>set R. flag r"
       "files ?w2 = (files w)(name @ ''.tmp.ndjson'' \<mapsto> ndjson cdc (List.map_filter out R))"
    by blast
  have "files ?w2 (name @ ''.tmp.ndjson'') = Some (ndjson cdc (List.map_filter out R))"
    using R(4) by simp
  from swap_phase_outcomes [OF this] sw
  have "files (snd (swap_phase name ?w2)) name = Some (ndjson cdc (List.map_filter out R))"
    by auto
  with R(1,2,3) show ?thesis
    by blast
qed

lemma updateRecords_stored:
  assumes before: "fst (getAllRecords cdc True (constructor name) (w\<lparr>faults := []\<rparr>)) = Inr R"
    and codec: "\<forall>r\<in>set R. codec_ok cdc (if P r then N else r)"
    and ok: "fst (updateRecords cdc P N (constructor name) w) = Inr ()"
    and stat: "\<not> injected 1 w"
  shows "fst (getAllRecords cdc True (constructor name)
                ((snd (snd (updateRecords cdc P N (constructor name) w)))\<lparr>faults := []\<rparr>))
           = Inr (map (\<lambda>r. if P r then N else r) R)"
proof -
  let ?f = "\<lambda>r. if P r then N else r"
  let ?out = "\<lambda>r. Some (?f r)"
  let ?tr = "writeFile (name @ ''.tmp.ndjson'') [] False w"
  let ?sc = "scan_phase cdc ?out (\<lambda>r. True) name w"
  let ?w2 = "snd (snd ?sc)"
  let ?after = "snd (snd (updateRecords cdc P N (constructor name) w))"
  from ok have tr: "\<not> isl (fst ?tr)"
    by (cases "fst ?tr") (simp_all add: updateRecords_constructor)
  with ok obtain acc where acc: "fst ?sc = Inr acc"
    by (cases "fst ?sc"; cases "fst ?tr") (simp_all add: updateRecords_constructor)
  show ?thesis
  proof (cases "snd acc")
    case True
    with ok tr acc have sw: "\<not> isl (fst (swap_phase name ?w2))"
      and after: "?after = snd (swap_phase name ?w2)"
      by (cases "fst ?tr"; simp add: updateRecords_constructor)+
    from swap_success [OF tr acc True sw] obtain content R' where
      R': "files w name = Some content" "records_of cdc (readline [] False content) = Inr R'"
          "files (snd (swap_phase name ?w2)) name = Some (ndjson cdc (List.map_filter ?out R'))"
      by blast
    from before R'(1,2) have "R' = R"
      by (simp add: stored_records)
    moreover have "\<forall>r\<in>set (map ?f R). codec_ok cdc r"
      using codec by auto
    then have "records_of cdc (readline [] False (ndjson cdc (map ?f R))) = Inr (map ?f R)"
      by (rule records_of_ndjson)
    ultimately show ?thesis
      using R'(3) after by (simp add: stored_records map_filter_update)
  next
    case False
    with ok tr acc have after: "?after = ?w2"
      by (cases "fst ?tr") (simp_all add: updateRecords_constructor)
    have same: "files ?w2 name = files w name"
      by (rule scan_phase_backing)
    from scan_phase_unchanged [OF tr acc False stat] before have "R = []"
      by (auto simp: stored_records)
    with before same after show ?thesis
      by (simp add: stored_records)
  qed
qed

lemma deleteRecords_untouched:
  assumes before: "fst (getAllRecords cdc True (constructor name) (w\<lparr>faults := []\<rparr>)) = Inr R"
    and none: "\<forall>r\<in>set R. \<not> P r"
  shows "files (snd (snd (deleteRecords cdc P (constructor name) w))) name = files w name"
proof -
  let ?out = "\<lambda>r. if P r then None else Some r"
  let ?tr = "writeFile (name @ ''.tmp.ndjson'') [] False w"
  let ?sc = "scan_phase cdc ?out P name w"
  let ?w2 = "snd (snd ?sc)"
  have same: "files ?w2 name = files w name"
    by (rule scan_phase_backing)
  show ?thesis
  proof (cases "fst ?tr")
    case (Inl e)
    then show ?thesis
      by (simp add: deleteRecords_constructor truncate_other)
  next
    case tr: (Inr u)
    show ?thesis
    proof (cases "fst ?sc")
      case (Inl e)
      with tr same show ?thesis
        by (simp add: deleteRecords_constructor)
    next
      case (Inr acc)
      have "\<not> snd acc"
      proof
        assume upd: "snd acc"
        have "\<not> isl (fst ?tr)"
          using tr by simp
        from scan_phase_updated [OF this Inr upd] before none show False
          by (auto simp: stored_records)
      qed
      moreover have "files (snd (deleteFile (name @ ''.tmp.ndjson'') ?w2)) name = files ?w2 name"
        by (simp add: deleteFile_files)
      ultimately show ?thesis
        using tr Inr same by (simp add: deleteRecords_constructor)
    qed
  qed
qed

lemma deleteRecords_stored:
  assumes before: "fst (getAllRecords cdc True (constructor name) (w\<lparr>faults := []\<rparr>)) = Inr R"
    and codec: "\<forall>r\<in>set R. \<not> P r \<longrightarrow> codec_ok cdc r"
    and ok: "fst (deleteRecords cdc P (constructor name) w) = Inr ()"
    and stat: "\<not> injected 1 w"
  shows "fst (getAllRecords cdc True (constructor name)
                ((snd (snd (deleteRecords cdc P (constructor name) w)))\<lparr>faults := []\<rparr>))
           = Inr (filter (\<lambda>r. \<not> P r) R)"
proof -
  let ?out = "\<lambda>r. if P r then None else Some r"
  let ?tr = "writeFile (name @ ''.tmp.ndjson'') [] False w"
  let ?sc = "scan_phase cdc ?out P name w"
  let ?w2 = "snd (snd ?sc)"
  let ?after = "snd (snd (deleteRecords cdc P (constructor name) w))"
  from ok have tr: "\<not> isl (fst ?tr)"
    by (cases "fst ?tr") (simp_all add: deleteRecords_constructor)
  with ok obtain acc where acc: "fst ?sc = Inr acc"
    by (cases "fst ?sc"; cases "fst ?tr") (simp_all add: deleteRecords_constructor)
  show ?thesis
  proof (cases "snd acc")
    case True
    with ok tr acc have sw: "\<not> isl (fst (swap_phase name ?w2))"
      and after: "?after = snd (swap_phase name ?w2)"
      by (cases "fst ?tr"; cases "fst (swap_phase name ?w2)"; simp add: deleteRecords_constructor)+
    from swap_success [OF tr acc True sw] obtain content R' where
      R': "files w name = Some content" "records_of cdc (readline [] False content) = Inr R'"
          "files (snd (swap_phase name ?w2)) name = Some (ndjson cdc (List.map_filter ?out R'))"
      by blast
    from before R'(1,2) have "R' = R"
      by (simp add: stored_records)
    moreover have "\<forall>r\<in>set (filter (\<lambda>r. \<not> P r) R). codec_ok cdc r"
      using codec by auto
    then have "records_of cdc (readline [] False (ndjson cdc (filter (\<lambda>r. \<not> P r) R)))
                 = Inr (filter (\<lambda>r. \<not> P r) R)"
      by (rule records_of_ndjson)
    ultimately show ?thesis
      using R'(3) after by (simp add: stored_records map_filter_delete)
  next
    case False
    from scan_phase_unchanged [OF tr acc False stat] before have none: "\<forall>r\<in>set R. \<not> P r"
      by (auto simp: stored_records)
    then have keep: "filter (\<lambda>r. \<not> P r) R = R"
      by (auto intro: filter_True)
    from deleteRecords_untouched [OF before none] before keep show ?thesis
      by (simp add: stored_records)
  qed
qed


lemma stored_nofault:
  "faults w = [] \<Longrightarrow> fst (getAllRecords cdc True (constructor name) (w\<lparr>faults := []\<rparr>)) = Inr R \<Longrightarrow>
   files w name = None \<or>
   (\<exists>content. files w name = Some content \<and> records_of cdc (readline [] False content) = Inr R)"
  by (auto simp: stored_records split: option.splits)

section \<open>The claims\<close>

text \<open>
  The claims about what the store holds are stated for an instance as the constructor makes
  it and for records the codec reads back from their own lines (\<open>codec_ok\<close>). The records
  the store holds are what \<open>getAllRecords\<close> returns on its files when no failure is
  injected into the read.
\<close>

text \<open>
  Claim C7, as amended. For every sequence of records \<open>R\<close>, on a store whose backing file
  is absent or empty, and under any schedule that injects no failure into the three
  filesystem calls the two operations make (the append of \<open>addRecords\<close>, then the stat and
  the read of \<open>getAllRecords\<close>), \<open>addRecords R\<close> succeeds and \<open>getAllRecords\<close> afterwards
  returns exactly \<open>R\<close>, in the same order.
\<close>

theorem append_then_getAllRecords:
  assumes "files w name = None \<or> files w name = Some []"
    and "\<forall>r\<in>set R. codec_ok cdc r"
    and "\<not> injected 0 w" and "\<not> injected 1 w" and "\<not> injected 2 w"
  shows "fst (addRecords cdc R (constructor name) w) = Inr () \<and>
         fst (getAllRecords cdc waitForUnlock (fst (snd (addRecords cdc R (constructor name) w)))
                (snd (snd (addRecords cdc R (constructor name) w)))) = Inr R"
proof -
  let ?w1 = "snd (writeFile name (ndjson cdc R) True w)"
  let ?w2 = "snd (fileExists name ?w1)"
  have add: "fst (writeFile name (ndjson cdc R) True w) = Inr ()"
    using assms(3) by (simp add: writeFile_fst)
  then have content: "files ?w1 name = Some (ndjson cdc R)"
    using assms(1) by (auto simp: writeFile_files written_def)
  have "injected 0 ?w1 = injected (Suc 0) w"
    by (rule injected_later) simp
  with assms(4) content have ex: "fst (fileExists name ?w1)"
    by (simp add: fileExists_injected)
  have "injected 0 ?w2 = injected (Suc 0) ?w1"
    by (rule injected_later) simp
  also have "\<dots> = injected (Suc (Suc 0)) w"
    by (rule injected_later) simp
  finally have "\<not> injected 0 ?w2"
    using assms(5) by (simp add: numeral_2_eq_2)
  with content have rd: "fst (fs_createReadStream name ?w2) = Inr (ndjson cdc R)"
    by (simp add: fs_read_fst)
  have "records_of cdc (readline [] False (ndjson cdc R)) = Inr R"
    using assms(2) by (rule records_of_ndjson)
  with add ex rd show ?thesis
    by (simp add: addRecords_constructor getAllRecords_def forEachRecord_constructor loop_getAll)
qed

text \<open>
  The theorem at three records on an empty filesystem, with a failure scheduled for a
  fourth call.
\<close>

theorem append_then_getAllRecords_witness:
  "files (disk [] [False, False, False, True]) ''db'' = None \<and>
   codec_ok json_bool True \<and> codec_ok json_bool False \<and>
   \<not> injected 0 (disk [] [False, False, False, True]) \<and>
   \<not> injected 1 (disk [] [False, False, False, True]) \<and>
   \<not> injected 2 (disk [] [False, False, False, True]) \<and>
   fst (addRecords json_bool [True, False, True] (constructor ''db'')
          (disk [] [False, False, False, True])) = Inr () \<and>
   fst (getAllRecords json_bool True
          (fst (snd (addRecords json_bool [True, False, True] (constructor ''db'')
                       (disk [] [False, False, False, True]))))
          (snd (snd (addRecords json_bool [True, False, True] (constructor ''db'')
                       (disk [] [False, False, False, True])))))
     = Inr [True, False, True]"
proof -
  let ?w = "disk [] [False, False, False, True]"
  have h1: "files ?w ''db'' = None" by simp
  have h2: "\<forall>r\<in>set [True, False, True]. codec_ok json_bool r" by (simp add: json_bool_ok)
  have h3: "\<not> injected 0 ?w" by (simp add: injected_def)
  have h4: "\<not> injected 1 ?w" by (simp add: injected_def)
  have h5: "\<not> injected 2 ?w" by (simp add: injected_def)
  from append_then_getAllRecords [OF disjI1 [OF h1] h2 h3 h4 h5, of True] h1 h3 h4 h5
  show ?thesis by (simp add: json_bool_ok)
qed

text \<open>
  Claim C7, as stated, fails. With a failure injected into the stat call of
  \<open>getAllRecords\<close>, \<open>fileExists\<close> reports false and the read succeeds with no record,
  although \<open>addRecords\<close> succeeded and the backing file holds the line of the record.
\<close>

theorem append_then_getAllRecords_counterexample:
  "files (disk [] [False, True]) ''db'' = None \<and>
   fst (addRecords json_bool [True] (constructor ''db'') (disk [] [False, True])) = Inr () \<and>
   files (snd (snd (addRecords json_bool [True] (constructor ''db'') (disk [] [False, True])))) ''db''
     = Some (''true'' @ [LF]) \<and>
   fst (getAllRecords json_bool True
          (fst (snd (addRecords json_bool [True] (constructor ''db'') (disk [] [False, True]))))
          (snd (snd (addRecords json_bool [True] (constructor ''db'') (disk [] [False, True])))))
     = Inr [] \<and>
   trace (snd (snd (getAllRecords json_bool True
          (fst (snd (addRecords json_bool [True] (constructor ''db'') (disk [] [False, True]))))
          (snd (snd (addRecords json_bool [True] (constructor ''db'') (disk [] [False, True])))))))
     = [(WriteFile ''db'' (''true'' @ [LF]) True, True), (Stat ''db'', False)]"
  by code_simp

text \<open>
  Claim C2, as amended. Let \<open>R\<close> be the records the store holds before the call. Under
  any schedule of injected failures, if \<open>updateRecords P N\<close> completes successfully and no
  failure was injected into its stat call on the backing file (its second filesystem
  call, after the truncation of the temporary file), the store holds afterwards a sequence
  of the same length, with \<open>N\<close> at every position where \<open>P\<close> held of the record of \<open>R\<close> and
  the record of \<open>R\<close> at every other position. Without injected failures the call does
  complete successfully.
\<close>

theorem updateRecords_pointwise:
  assumes before: "fst (getAllRecords cdc True (constructor name) (w\<lparr>faults := []\<rparr>)) = Inr R"
    and codec: "\<forall>r\<in>set R. codec_ok cdc (if P r then N else r)"
  shows "(faults w = [] \<longrightarrow> fst (updateRecords cdc P N (constructor name) w) = Inr ()) \<and>
         (fst (updateRecords cdc P N (constructor name) w) = Inr () \<and> \<not> injected 1 w \<longrightarrow>
            (\<exists>R'. fst (getAllRecords cdc True (fst (snd (updateRecords cdc P N (constructor name) w)))
                         ((snd (snd (updateRecords cdc P N (constructor name) w)))\<lparr>faults := []\<rparr>))
                     = Inr R' \<and>
                  length R' = length R \<and>
                  (\<forall>i<length R. R' ! i = (if P (R ! i) then N else R ! i))))"
proof -
  have "fst (updateRecords cdc P N (constructor name) w) = Inr ()" if nf: "faults w = []"
  proof -
    from stored_nofault [OF nf before] show ?thesis
      using updateRecords_nofault_absent(1) [OF nf, of name cdc P N]
        updateRecords_nofault_present(1) [OF nf, of name _ cdc R P N]
      by blast
  qed
  moreover have "\<exists>R'. fst (getAllRecords cdc True (fst (snd (updateRecords cdc P N (constructor name) w)))
                         ((snd (snd (updateRecords cdc P N (constructor name) w)))\<lparr>faults := []\<rparr>))
                     = Inr R' \<and>
                  length R' = length R \<and>
                  (\<forall>i<length R. R' ! i = (if P (R ! i) then N else R ! i))"
    if "fst (updateRecords cdc P N (constructor name) w) = Inr ()" "\<not> injected 1 w"
    using updateRecords_stored [OF before codec that] by simp
  ultimately show ?thesis
    by blast
qed

text \<open>
  The theorem at a store of two records, replacing \<open>false\<close> by \<open>true\<close>, with a failure
  injected into the unlink of the backing file: the failure is caught, the rename replaces
  the backing file, and the call completes successfully.
\<close>

theorem updateRecords_pointwise_witness:
  "fst (getAllRecords json_bool True (constructor ''db'')
          ((disk [(''db'', ''true'' @ [LF] @ ''false'' @ [LF])]
              [False, False, False, False, False, True])\<lparr>faults := []\<rparr>)) = Inr [True, False] \<and>
   codec_ok json_bool True \<and>
   fst (updateRecords json_bool (\<lambda>r. \<not> r) True (constructor ''db'')
          (disk [(''db'', ''true'' @ [LF] @ ''false'' @ [LF])]
             [False, False, False, False, False, True])) = Inr () \<and>
   \<not> injected 1 (disk [(''db'', ''true'' @ [LF] @ ''false'' @ [LF])]
                   [False, False, False, False, False, True]) \<and>
   fst (getAllRecords json_bool True
          (fst (snd (updateRecords json_bool (\<lambda>r. \<not> r) True (constructor ''db'')
                       (disk [(''db'', ''true'' @ [LF] @ ''false'' @ [LF])]
                          [False, False, False, False, False, True]))))
          ((snd (snd (updateRecords json_bool (\<lambda>r. \<not> r) True (constructor ''db'')
                        (disk [(''db'', ''true'' @ [LF] @ ''false'' @ [LF])]
                           [False, False, False, False, False, True]))))\<lparr>faults := []\<rparr>))
     = Inr [True, True]"
proof -
  let ?w = "disk [(''db'', ''true'' @ [LF] @ ''false'' @ [LF])] [False, False, False, False, False, True]"
  have h1: "fst (getAllRecords json_bool True (constructor ''db'') (?w\<lparr>faults := []\<rparr>)) = Inr [True, False]"
    by (simp add: stored_records json_bool_def trim_falsy_def is_space_def LF_def CR_def)
  have h2: "\<forall>r\<in>set [True, False]. codec_ok json_bool (if \<not> r then True else r)"
    by (simp add: json_bool_ok)
  have ok: "fst (updateRecords json_bool (\<lambda>r. \<not> r) True (constructor ''db'') ?w) = Inr ()"
    by code_simp
  have stat: "\<not> injected 1 ?w"
    by (simp add: injected_def)
  from updateRecords_pointwise [OF h1 h2] ok stat obtain R' where
    after: "fst (getAllRecords json_bool True
          (fst (snd (updateRecords json_bool (\<lambda>r. \<not> r) True (constructor ''db'') ?w)))
          ((snd (snd (updateRecords json_bool (\<lambda>r. \<not> r) True (constructor ''db'') ?w)))\<lparr>faults := []\<rparr>))
        = Inr R'"
    and len: "length R' = length [True, False]"
    and nth: "\<forall>i<length [True, False]. R' ! i = (if \<not> [True, False] ! i then True else [True, False] ! i)"
    by blast
  have "R' = [True, True]"
  proof (rule nth_equalityI)
    show "length R' = length [True, True]"
      using len by simp
    fix i
    assume "i < length R'"
    then have "i = 0 \<or> i = 1"
      using len by auto
    then show "R' ! i = [True, True] ! i"
      using nth by auto
  qed
  with ok after h1 stat show ?thesis
    by (simp add: json_bool_ok)
qed

text \<open>
  Claim C2, as stated, fails. With a failure injected into the stat call, \<open>fileExists\<close>
  reports false, the scan visits no record and the call completes successfully without a
  swap: the store still holds \<open>true, false\<close>, where the claim has \<open>true, true\<close>.
\<close>

theorem updateRecords_pointwise_counterexample:
  "fst (getAllRecords json_bool True (constructor ''db'')
          (disk [(''db'', ''true'' @ [LF] @ ''false'' @ [LF])] [])) = Inr [True, False] \<and>
   fst (updateRecords json_bool (\<lambda>r. \<not> r) True (constructor ''db'')
          (disk [(''db'', ''true'' @ [LF] @ ''false'' @ [LF])] [False, True])) = Inr () \<and>
   trace (snd (snd (updateRecords json_bool (\<lambda>r. \<not> r) True (constructor ''db'')
          (disk [(''db'', ''true'' @ [LF] @ ''false'' @ [LF])] [False, True]))))
     = [(WriteFile ''db.tmp.ndjson'' [] False, True), (Stat ''db'', False)] \<and>
   fst (getAllRecords json_bool True
          (fst (snd (updateRecords json_bool (\<lambda>r. \<not> r) True (constructor ''db'')
                       (disk [(''db'', ''true'' @ [LF] @ ''false'' @ [LF])] [False, True]))))
          (snd (snd (updateRecords json_bool (\<lambda>r. \<not> r) True (constructor ''db'')
                       (disk [(''db'', ''true'' @ [LF] @ ''false'' @ [LF])] [False, True])))))
     = Inr [True, False]"
  by code_simp

text \<open>
  Claim C3, as amended. Let \<open>R\<close> be the records the store holds before the call. Under
  any schedule of injected failures, if \<open>deleteRecords P\<close> completes successfully and no
  failure was injected into its stat call on the backing file (its second filesystem
  call), the store holds afterwards the records of \<open>R\<close> that do not satisfy \<open>P\<close>, in their
  order in \<open>R\<close>. Without injected failures the call does complete successfully. And
  when no record of \<open>R\<close> satisfies \<open>P\<close>, the backing file has afterwards the bytes it had
  before the call, whatever failures are injected and however the call ends.
\<close>

theorem deleteRecords_filters:
  assumes before: "fst (getAllRecords cdc True (constructor name) (w\<lparr>faults := []\<rparr>)) = Inr R"
    and codec: "\<forall>r\<in>set R. \<not> P r \<longrightarrow> codec_ok cdc r"
  shows "(faults w = [] \<longrightarrow> fst (deleteRecords cdc P (constructor name) w) = Inr ()) \<and>
         (fst (deleteRecords cdc P (constructor name) w) = Inr () \<and> \<not> injected 1 w \<longrightarrow>
            fst (getAllRecords cdc True (fst (snd (deleteRecords cdc P (constructor name) w)))
                   ((snd (snd (deleteRecords cdc P (constructor name) w)))\<lparr>faults := []\<rparr>))
              = Inr (filter (\<lambda>r. \<not> P r) R)) \<and>
         ((\<forall>r\<in>set R. \<not> P r) \<longrightarrow>
            files (snd (snd (deleteRecords cdc P (constructor name) w))) name = files w name)"
proof -
  have "fst (deleteRecords cdc P (constructor name) w) = Inr ()" if nf: "faults w = []"
  proof -
    from stored_nofault [OF nf before] show ?thesis
      using deleteRecords_nofault_absent(1) [OF nf, of name cdc P]
        deleteRecords_nofault_present(1) [OF nf, of name _ cdc R P]
      by blast
  qed
  moreover have "fst (getAllRecords cdc True (fst (snd (deleteRecords cdc P (constructor name) w)))
                   ((snd (snd (deleteRecords cdc P (constructor name) w)))\<lparr>faults := []\<rparr>))
              = Inr (filter (\<lambda>r. \<not> P r) R)"
    if "fst (deleteRecords cdc P (constructor name) w) = Inr ()" "\<not> injected 1 w"
    using deleteRecords_stored [OF before codec that] by simp
  moreover have "files (snd (snd (deleteRecords cdc P (constructor name) w))) name = files w name"
    if "\<forall>r\<in>set R. \<not> P r"
    using before that by (rule deleteRecords_untouched)
  ultimately show ?thesis
    by blast
qed

text \<open>
  The theorem at a store of three records, deleting \<open>false\<close>, with a failure injected
  into the unlink of the backing file.
\<close>

theorem deleteRecords_filters_witness:
  "fst (getAllRecords json_bool True (constructor ''db'')
          ((disk [(''db'', ''true'' @ [LF] @ ''false'' @ [LF] @ ''true'' @ [LF])]
              [False, False, False, False, False, True])\<lparr>faults := []\<rparr>))
     = Inr [True, False, True] \<and>
   codec_ok json_bool True \<and>
   fst (deleteRecords json_bool (\<lambda>r. \<not> r) (constructor ''db'')
          (disk [(''db'', ''true'' @ [LF] @ ''false'' @ [LF] @ ''true'' @ [LF])]
             [False, False, False, False, False, True])) = Inr () \<and>
   \<not> injected 1 (disk [(''db'', ''true'' @ [LF] @ ''false'' @ [LF] @ ''true'' @ [LF])]
                   [False, False, False, False, False, True]) \<and>
   fst (getAllRecords json_bool True
          (fst (snd (deleteRecords json_bool (\<lambda>r. \<not> r) (constructor ''db'')
                       (disk [(''db'', ''true'' @ [LF] @ ''false'' @ [LF] @ ''true'' @ [LF])]
                          [False, False, False, False, False, True]))))
          ((snd (snd (deleteRecords json_bool (\<lambda>r. \<not> r) (constructor ''db'')
                        (disk [(''db'', ''true'' @ [LF] @ ''false'' @ [LF] @ ''true'' @ [LF])]
                           [False, False, False, False, False, True]))))\<lparr>faults := []\<rparr>))
     = Inr [True, True]"
proof -
  let ?w = "disk [(''db'', ''true'' @ [LF] @ ''false'' @ [LF] @ ''true'' @ [LF])]
              [False, False, False, False, False, True]"
  have h1: "fst (getAllRecords json_bool True (constructor ''db'') (?w\<lparr>faults := []\<rparr>))
              = Inr [True, False, True]"
    by (simp add: stored_records json_bool_def trim_falsy_def is_space_def LF_def CR_def)
  have h2: "\<forall>r\<in>set [True, False, True]. \<not> \<not> r \<longrightarrow> codec_ok json_bool r"
    by (simp add: json_bool_ok)
  have ok: "fst (deleteRecords json_bool (\<lambda>r. \<not> r) (constructor ''db'') ?w) = Inr ()"
    by code_simp
  have stat: "\<not> injected 1 ?w"
    by (simp add: injected_def)
  from deleteRecords_filters [OF h1 h2] ok stat h1 show ?thesis
    by (simp add: json_bool_ok)
qed

text \<open>
  Claim C3, as stated, fails. With a failure injected into the stat call the scan visits
  no record, the call removes the temporary file and completes successfully, and the store
  still holds the record that satisfies the predicate.
\<close>

theorem deleteRecords_filters_counterexample:
  "fst (getAllRecords json_bool True (constructor ''db'')
          (disk [(''db'', ''true'' @ [LF] @ ''false'' @ [LF] @ ''true'' @ [LF])] []))
     = Inr [True, False, True] \<and>
   fst (deleteRecords json_bool (\<lambda>r. \<not> r) (constructor ''db'')
          (disk [(''db'', ''true'' @ [LF] @ ''false'' @ [LF] @ ''true'' @ [LF])] [False, True])) = Inr () \<and>
   trace (snd (snd (deleteRecords json_bool (\<lambda>r. \<not> r) (constructor ''db'')
          (disk [(''db'', ''true'' @ [LF] @ ''false'' @ [LF] @ ''true'' @ [LF])] [False, True]))))
     = [(WriteFile ''db.tmp.ndjson'' [] False, True), (Stat ''db'', False),
        (Unlink ''db.tmp.ndjson'', True)] \<and>
   fst (getAllRecords json_bool True
          (fst (snd (deleteRecords json_bool (\<lambda>r. \<not> r) (constructor ''db'')
                       (disk [(''db'', ''true'' @ [LF] @ ''false'' @ [LF] @ ''true'' @ [LF])] [False, True]))))
          (snd (snd (deleteRecords json_bool (\<lambda>r. \<not> r) (constructor ''db'')
                       (disk [(''db'', ''true'' @ [LF] @ ''false'' @ [LF] @ ''true'' @ [LF])] [False, True])))))
     = Inr [True, False, True]"
  by code_simp

text \<open>
  Claim C9. When the backing file is absent or holds no record (the scan before the call
  returns the empty list), \<open>updateRecords\<close> succeeds without a swap and leaves the
  temporary file, at the path of the backing file followed by \<open>.tmp.ndjson\<close>, on disk with
  no content; the backing file is as before.
\<close>

theorem updateRecords_leaves_tmp_file:
  assumes nf: "faults w = []"
    and before: "fst (getAllRecords cdc True (constructor name) w) = Inr []"
  shows "fst (updateRecords cdc P N (constructor name) w) = Inr () \<and>
         tmpFileName (constructor name) = name @ ''.tmp.ndjson'' \<and>
         files (snd (snd (updateRecords cdc P N (constructor name) w))) (tmpFileName (constructor name))
           = Some [] \<and>
         files (snd (snd (updateRecords cdc P N (constructor name) w))) name = files w name"
proof (cases "files w name")
  case None
  with updateRecords_nofault_absent [OF nf None, of cdc P N] show ?thesis
    by simp
next
  case (Some content)
  with nf before have recs: "records_of cdc (readline [] False content) = Inr []"
    by (simp add: getAllRecords_nofault)
  from updateRecords_nofault_present [OF nf Some recs, of P N] show ?thesis
    by simp
qed

text \<open>The theorem on an empty filesystem: the call creates the temporary file.\<close>

theorem updateRecords_leaves_tmp_file_witness:
  "faults (disk [] []) = [] \<and>
   fst (getAllRecords json_bool True (constructor ''db'') (disk [] [])) = Inr [] \<and>
   files (disk [] []) ''db.tmp.ndjson'' = None \<and>
   fst (updateRecords json_bool (\<lambda>r. True) False (constructor ''db'') (disk [] [])) = Inr () \<and>
   files (snd (snd (updateRecords json_bool (\<lambda>r. True) False (constructor ''db'') (disk [] []))))
     ''db.tmp.ndjson'' = Some [] \<and>
   files (snd (snd (updateRecords json_bool (\<lambda>r. True) False (constructor ''db'') (disk [] []))))
     ''db'' = None"
proof -
  have h1: "faults (disk [] []) = []" by simp
  have h2: "fst (getAllRecords json_bool True (constructor ''db'') (disk [] [])) = Inr []"
    by (simp add: getAllRecords_nofault)
  from updateRecords_leaves_tmp_file [OF h1 h2, of "\<lambda>r. True" False] h1 h2 show ?thesis
    by simp
qed

text \<open>
  Claim C8. When the backing file does not exist, \<open>getAllRecords\<close>, \<open>findRecord\<close>,
  \<open>findRecords\<close>, \<open>getNumRecords\<close> and \<open>forEachRecord\<close> succeed as on an empty store (the
  empty list, no record, zero, the callback never called), and \<open>getDatabaseSize\<close> fails.
  No assumption on injected failures is needed.
\<close>

theorem absent_file_reads_as_empty:
  assumes "files w name = None"
  shows "fst (getAllRecords cdc waitForUnlock (constructor name) w) = Inr [] \<and>
         fst (findRecord cdc P waitForUnlock (constructor name) w) = Inr None \<and>
         fst (findRecords cdc P waitForUnlock (constructor name) w) = Inr [] \<and>
         fst (getNumRecords cdc waitForUnlock (constructor name) w) = Inr 0 \<and>
         fst (forEachRecord cdc callback waitForUnlock acc (constructor name) w) = Inr acc \<and>
         isl (fst (getDatabaseSize (constructor name) w))"
proof -
  have st: "isl (fst (fs_stat name w))"
    using assms by (rule fs_stat_absent)
  then have "fst (getAllRecords cdc waitForUnlock (constructor name) w) = Inr []"
    by (simp add: getAllRecords_def forEachRecord_stat_fails)
  moreover from this have "fst (getNumRecords cdc waitForUnlock (constructor name) w) = Inr 0"
    by (simp add: getNumRecords_def split_beta split: sum.split)
  moreover have "isl (fst (getDatabaseSize (constructor name) w))"
    using st by (simp add: getDatabaseSize_def split_beta)
  ultimately show ?thesis
    using st by (simp add: findRecord_def findRecords_def forEachRecord_stat_fails)
qed

text \<open>The theorem on an empty filesystem.\<close>

theorem absent_file_reads_as_empty_witness:
  "files (disk [] []) ''db'' = None \<and>
   fst (getAllRecords json_bool True (constructor ''db'') (disk [] [])) = Inr [] \<and>
   fst (findRecord json_bool (\<lambda>r. True) True (constructor ''db'') (disk [] [])) = Inr None \<and>
   fst (findRecords json_bool (\<lambda>r. True) True (constructor ''db'') (disk [] [])) = Inr [] \<and>
   fst (getNumRecords json_bool True (constructor ''db'') (disk [] [])) = Inr 0 \<and>
   isl (fst (getDatabaseSize (constructor ''db'') (disk [] [])))"
proof -
  have h: "files (disk [] []) ''db'' = None" by simp
  from absent_file_reads_as_empty [OF h, of json_bool True "\<lambda>r. True" "\<lambda>r acc w. (Inr (Some True, acc), w)" "()"] h
  show ?thesis by simp
qed

text \<open>
  Claim C10. Whenever the \<open>stat\<close> call on the backing file fails, for whatever reason,
  \<open>fileExists\<close> reports false, and every read that goes through \<open>forEachRecord\<close> succeeds
  as on an empty store instead of passing the error on.
\<close>

theorem stat_failure_reads_as_empty:
  assumes "isl (fst (fs_stat name w))"
  shows "fst (fileExists name w) = False \<and>
         fst (getAllRecords cdc waitForUnlock (constructor name) w) = Inr [] \<and>
         fst (findRecord cdc P waitForUnlock (constructor name) w) = Inr None \<and>
         fst (findRecords cdc P waitForUnlock (constructor name) w) = Inr [] \<and>
         fst (getNumRecords cdc waitForUnlock (constructor name) w) = Inr 0 \<and>
         fst (forEachRecord cdc callback waitForUnlock acc (constructor name) w) = Inr acc"
proof -
  have "fst (getAllRecords cdc waitForUnlock (constructor name) w) = Inr []"
    using assms by (simp add: getAllRecords_def forEachRecord_stat_fails)
  moreover from this have "fst (getNumRecords cdc waitForUnlock (constructor name) w) = Inr 0"
    by (simp add: getNumRecords_def split_beta split: sum.split)
  ultimately show ?thesis
    using assms by (simp add: findRecord_def findRecords_def forEachRecord_stat_fails fileExists_fst)
qed

text \<open>
  The theorem at a backing file that exists and holds one record, with a failure injected
  into the \<open>stat\<close> call: the reads see no record, where without the failure
  \<open>getAllRecords\<close> returns the record.
\<close>

theorem stat_failure_reads_as_empty_witness:
  "files (disk [(''db'', ''true'' @ [LF])] [True]) ''db'' = Some (''true'' @ [LF]) \<and>
   fst (fs_stat ''db'' (disk [(''db'', ''true'' @ [LF])] [True])) = Inl (EIO ''db'') \<and>
   fst (getAllRecords json_bool True (constructor ''db'') (disk [(''db'', ''true'' @ [LF])] []))
     = Inr [True] \<and>
   fst (fileExists ''db'' (disk [(''db'', ''true'' @ [LF])] [True])) = False \<and>
   fst (getAllRecords json_bool True (constructor ''db'') (disk [(''db'', ''true'' @ [LF])] [True]))
     = Inr [] \<and>
   fst (findRecord json_bool (\<lambda>r. True) True (constructor ''db'') (disk [(''db'', ''true'' @ [LF])] [True]))
     = Inr None \<and>
   fst (getNumRecords json_bool True (constructor ''db'') (disk [(''db'', ''true'' @ [LF])] [True]))
     = Inr 0"
proof -
  let ?w = "disk [(''db'', ''true'' @ [LF])] [True]"
  have st: "fst (fs_stat ''db'' ?w) = Inl (EIO ''db'')"
    by (simp add: fs_stat_def inject_def)
  then have h: "isl (fst (fs_stat ''db'' ?w))"
    by simp
  have ok: "fst (getAllRecords json_bool True (constructor ''db'') (disk [(''db'', ''true'' @ [LF])] []))
     = Inr [True]"
    by (simp add: getAllRecords_nofault json_bool_def trim_falsy_def is_space_def LF_def CR_def)
  from stat_failure_reads_as_empty [OF h, of json_bool True "\<lambda>r. True"
      "\<lambda>r acc w. (Inr (Some True, acc), w)" "()"] st ok
  show ?thesis by simp
qed

text \<open>
  Claim C1, as amended. Let \<open>op\<close> be \<open>updateRecords\<close> or \<open>deleteRecords\<close>, run on a
  constructed instance under any schedule of injected failures, and call intended the
  content of the backing file after the same call without injected failures. If the
  call's rename did not succeed, then afterwards the backing file is as before the call,
  or it is absent while the temporary file holds the whole intended content (the backing
  file was unlinked and the rename failed). If the rename succeeded, the backing file
  holds the intended content. And if the backing file existed before the call, the
  backing file and the temporary file are not both absent afterwards.
\<close>

theorem replace_protocol_outcomes:
  assumes "op = updateRecords cdc P N \<or> op = deleteRecords cdc P"
  shows "(renamed (snd (snd (op (constructor name) w))) = renamed w \<longrightarrow>
            files (snd (snd (op (constructor name) w))) name = files w name \<or>
            (\<exists>c. files (snd (snd (op (constructor name) (w\<lparr>faults := []\<rparr>)))) name = Some c \<and>
                 files (snd (snd (op (constructor name) w))) name = None \<and>
                 files (snd (snd (op (constructor name) w))) (name @ ''.tmp.ndjson'') = Some c)) \<and>
         (renamed (snd (snd (op (constructor name) w))) \<noteq> renamed w \<longrightarrow>
            (\<exists>c. files (snd (snd (op (constructor name) (w\<lparr>faults := []\<rparr>)))) name = Some c \<and>
                 files (snd (snd (op (constructor name) w))) name = Some c)) \<and>
         (files w name \<noteq> None \<longrightarrow>
            files (snd (snd (op (constructor name) w))) name \<noteq> None \<or>
            files (snd (snd (op (constructor name) w))) (name @ ''.tmp.ndjson'') \<noteq> None)"
proof -
  let ?after = "snd (snd (op (constructor name) w))"
  let ?intended = "files (snd (snd (op (constructor name) (w\<lparr>faults := []\<rparr>)))) name"
  have both: "(renamed ?after = renamed w \<longrightarrow>
            files ?after name = files w name \<or>
            (\<exists>c. ?intended = Some c \<and> files ?after name = None \<and>
                 files ?after (name @ ''.tmp.ndjson'') = Some c)) \<and>
         (renamed ?after \<noteq> renamed w \<longrightarrow> (\<exists>c. ?intended = Some c \<and> files ?after name = Some c))"
    using assms updateRecords_outcomes [of cdc P N name w] deleteRecords_outcomes [of cdc P name w]
    by blast
  then have "files w name \<noteq> None \<longrightarrow>
      files ?after name \<noteq> None \<or> files ?after (name @ ''.tmp.ndjson'') \<noteq> None"
    by (cases "renamed ?after = renamed w") auto
  with both show ?thesis
    by blast
qed


text \<open>
  The theorem at a store of one record, every record replaced, with a failure injected
  into the sixth filesystem call, the rename: no rename succeeded, the backing file is
  gone, and the theorem gives that the temporary file holds the intended content.
\<close>

theorem replace_protocol_outcomes_witness:
  "renamed (snd (snd (updateRecords json_bool (\<lambda>r. True) False (constructor ''db'')
       (disk [(''db'', ''true'' @ [LF])] [False, False, False, False, False, True]))))
     = renamed (disk [(''db'', ''true'' @ [LF])] [False, False, False, False, False, True]) \<and>
   files (snd (snd (updateRecords json_bool (\<lambda>r. True) False (constructor ''db'')
       (disk [(''db'', ''true'' @ [LF])] [False, False, False, False, False, True])))) ''db'' = None \<and>
   (\<exists>c. files (snd (snd (updateRecords json_bool (\<lambda>r. True) False (constructor ''db'')
             ((disk [(''db'', ''true'' @ [LF])] [False, False, False, False, False, True])\<lparr>faults := []\<rparr>))))
          ''db'' = Some c \<and>
        files (snd (snd (updateRecords json_bool (\<lambda>r. True) False (constructor ''db'')
             (disk [(''db'', ''true'' @ [LF])] [False, False, False, False, False, True]))))
          (''db'' @ ''.tmp.ndjson'') = Some c)"
proof -
  let ?w = "disk [(''db'', ''true'' @ [LF])] [False, False, False, False, False, True]"
  let ?after = "snd (snd (updateRecords json_bool (\<lambda>r. True) False (constructor ''db'') ?w))"
  have same: "renamed ?after = renamed ?w"
    by code_simp
  have gone: "files ?after ''db'' = None"
    by code_simp
  have was: "files ?w ''db'' = Some (''true'' @ [LF])"
    by simp
  have "updateRecords json_bool (\<lambda>r. True) False = updateRecords json_bool (\<lambda>r. True) False \<or>
        updateRecords json_bool (\<lambda>r. True) False = deleteRecords json_bool (\<lambda>r. True)"
    by simp
  from replace_protocol_outcomes [OF this, of "''db''" ?w] same gone was show ?thesis
    by simp
qed

text \<open>
  Claim C1, as stated, fails. A failure injected between the population of the temporary
  file and the rename (here into the rename itself, after the unlink) leaves the backing
  file absent, not in its state before the call; and \<open>deleteRecords\<close> on a store whose
  backing file is absent ends with the backing file and the temporary file both absent.
\<close>

theorem replace_protocol_counterexample:
  "files (disk [(''db'', ''true'' @ [LF])] [False, False, False, False, False, True]) ''db''
     = Some (''true'' @ [LF]) \<and>
   trace (snd (snd (updateRecords json_bool (\<lambda>r. True) False (constructor ''db'')
       (disk [(''db'', ''true'' @ [LF])] [False, False, False, False, False, True])))) =
     [(WriteFile ''db.tmp.ndjson'' [] False, True), (Stat ''db'', True), (OpenRead ''db'', True),
      (WriteFile ''db.tmp.ndjson'' (''false'' @ [LF]) True, True), (Unlink ''db'', True),
      (Rename ''db.tmp.ndjson'' ''db'', False)] \<and>
   files (snd (snd (updateRecords json_bool (\<lambda>r. True) False (constructor ''db'')
       (disk [(''db'', ''true'' @ [LF])] [False, False, False, False, False, True])))) ''db'' = None \<and>
   files (snd (snd (updateRecords json_bool (\<lambda>r. True) False (constructor ''db'')
       (disk [(''db'', ''true'' @ [LF])] [False, False, False, False, False, True])))) ''db''
     \<noteq> files (disk [(''db'', ''true'' @ [LF])] [False, False, False, False, False, True]) ''db'' \<and>
   files (snd (snd (deleteRecords json_bool (\<lambda>r. True) (constructor ''db'') (disk [] [])))) ''db'' = None \<and>
   files (snd (snd (deleteRecords json_bool (\<lambda>r. True) (constructor ''db'') (disk [] []))))
     ''db.tmp.ndjson'' = None"
  by code_simp

text \<open>
  Claim C4, at a store of one record and a predicate no record satisfies. The callback of
  \<open>updateRecords\<close> sets \<open>isUpdated\<close> for every record it copies, so the call unlinks the
  backing file and renames the temporary file over it; \<open>deleteRecords\<close>, whose callback
  sets the flag only for a record it drops, leaves the backing file alone and removes the
  temporary file.
\<close>

theorem updateRecords_swaps_without_match:
  "fst (findRecords json_bool (\<lambda>r. False) True (constructor ''db'') (disk [(''db'', ''true'' @ [LF])] []))
     = Inr [] \<and>
   trace (snd (snd (updateRecords json_bool (\<lambda>r. False) False (constructor ''db'')
       (disk [(''db'', ''true'' @ [LF])] [])))) =
     [(WriteFile ''db.tmp.ndjson'' [] False, True), (Stat ''db'', True), (OpenRead ''db'', True),
      (WriteFile ''db.tmp.ndjson'' (''true'' @ [LF]) True, True), (Unlink ''db'', True),
      (Rename ''db.tmp.ndjson'' ''db'', True)] \<and>
   trace (snd (snd (deleteRecords json_bool (\<lambda>r. False) (constructor ''db'')
       (disk [(''db'', ''true'' @ [LF])] [])))) =
     [(WriteFile ''db.tmp.ndjson'' [] False, True), (Stat ''db'', True), (OpenRead ''db'', True),
      (WriteFile ''db.tmp.ndjson'' (''true'' @ [LF]) True, True), (Unlink ''db.tmp.ndjson'', True)]"
  by code_simp

text \<open>
  Claim C6. An operation run through \<open>lockAndExecute\<close> hands its caller the outcome of
  its callback, success or failure, and leaves \<open>lockedPromise\<close> fulfilled whatever that
  outcome was; so the callback of a following operation that waits for the unlock runs,
  and its outcome is handed to its own caller.
\<close>

theorem lockAndExecute_settles_and_releases:
  assumes "lockedPromise this = Fulfilled"
  shows "fst (lockAndExecute callback waitForUnlock this w) = fst (callback this w) \<and>
         snd (snd (lockAndExecute callback waitForUnlock this w)) = snd (snd (callback this w)) \<and>
         lockedPromise (fst (snd (lockAndExecute callback waitForUnlock this w))) = Fulfilled \<and>
         fst (lockAndExecute following True (fst (snd (lockAndExecute callback waitForUnlock this w))) w')
           = fst (following (fst (snd (lockAndExecute callback waitForUnlock this w))) w')"
proof -
  have run: "lockAndExecute callback waitForUnlock this w =
      (fst (callback this w), (fst (snd (callback this w)))\<lparr>lockedPromise := Fulfilled\<rparr>,
       snd (snd (callback this w)))"
    using assms by (simp add: lockAndExecute_run)
  then have "lockedPromise (fst (snd (lockAndExecute callback waitForUnlock this w))) = Fulfilled"
    by simp
  then have "fst (lockAndExecute following True (fst (snd (lockAndExecute callback waitForUnlock this w))) w')
           = fst (following (fst (snd (lockAndExecute callback waitForUnlock this w))) w')"
    by (simp add: lockAndExecute_run)
  with run show ?thesis
    by simp
qed

text \<open>The theorem at an operation whose callback throws, followed by one that succeeds.\<close>

theorem lockAndExecute_settles_and_releases_witness:
  "lockedPromise (constructor ''db'') = Fulfilled \<and>
   fst (lockAndExecute (\<lambda>this w. (Inl (Thrown ''failed'') :: error + unit, this, w)) True
          (constructor ''db'') (disk [] [])) = Inl (Thrown ''failed'') \<and>
   lockedPromise (fst (snd (lockAndExecute (\<lambda>this w. (Inl (Thrown ''failed'') :: error + unit, this, w)) True
          (constructor ''db'') (disk [] [])))) = Fulfilled \<and>
   fst (lockAndExecute (\<lambda>this w. (Inr (), this, w)) True
          (fst (snd (lockAndExecute (\<lambda>this w. (Inl (Thrown ''failed'') :: error + unit, this, w)) True
             (constructor ''db'') (disk [] [])))) (disk [] [])) = (Inr () :: error + unit)"
proof -
  have h: "lockedPromise (constructor ''db'') = Fulfilled" by simp
  from lockAndExecute_settles_and_releases [OF h,
      of "\<lambda>this w. (Inl (Thrown ''failed'') :: error + unit, this, w)" True "disk [] []"
         "\<lambda>this w. (Inr () :: error + unit, this, w)" "disk [] []"] h
  show ?thesis by simp
qed

text \<open>
  Claim C5, at two operations issued back to back, both waiting for the unlock. Both read
  the initial promise before either has assigned its own, so after the two continuations
  have run both have their file access in flight. Had the second call been issued after
  the first continuation ran, it would await the promise the first installed and start
  only after the first completed.
\<close>

theorem back_to_back_calls_overlap:
  "map_option (\<lambda>s. (el_phase s 1, el_phase s 2)) (el_run [Call 1 True, Call 2 True] el_constructor)
     = Some (Awaiting Initial, Awaiting Initial) \<and>
   map_option in_io (el_run [Call 1 True, Call 2 True, Microtask, Microtask] el_constructor)
     = Some [1, 2] \<and>
   map_option in_io (el_run [Call 1 True, Microtask, Call 2 True] el_constructor) = Some [1] \<and>
   el_run [Call 1 True, Microtask, Call 2 True, Microtask] el_constructor = None \<and>
   map_option in_io (el_run [Call 1 True, Microtask, Call 2 True, Complete 1, Microtask] el_constructor)
     = Some [2]"
  by code_simp

end
